theory Spec2Isabelle
  imports Main "HOL-Library.AList"
begin

section \<open>JavaScript values and binding contexts\<close>

text \<open>
  The values that travel through the component layer. A function value is
  represented by what it returns when it is called with a property name (a
  side-effect free function of its first argument); \<open>Rec\<close> is an object given by
  its enumerable properties in \<open>for ... in\<close> order, extensible and with every
  property writable; \<open>Locked kvs locked\<close> is such an object on which the
  assignment to a name for which \<open>locked\<close> holds throws a \<open>TypeError\<close> in
  strict code: every name of a frozen object, the absent names of an object
  that is not extensible, the name of a read-only property. \<open>Comp\<close> is the
  reference to a component instance and \<open>Promise\<close> the reference to a promise.
\<close>

datatype jsval =
    Undefined
  | Null
  | Bool bool
  | Num int
  | Str string
  | Fun "string \<Rightarrow> jsval"
  | Rec "(string \<times> jsval) list"
  | Locked "(string \<times> jsval) list" "string \<Rightarrow> bool"
  | Comp nat
  | Promise nat

text \<open>The operator \<open>typeof\<close>.\<close>

fun typeof :: "jsval \<Rightarrow> string" where
  "typeof Undefined = ''undefined''"
| "typeof Null = ''object''"
| "typeof (Bool b) = ''boolean''"
| "typeof (Num n) = ''number''"
| "typeof (Str s) = ''string''"
| "typeof (Fun f) = ''function''"
| "typeof (Rec kvs) = ''object''"
| "typeof (Locked kvs locked) = ''object''"
| "typeof (Comp c) = ''object''"
| "typeof (Promise p) = ''object''"

text \<open>Truthiness, as used by \<open>||\<close>, \<open>!\<close> and \<open>if\<close>.\<close>

fun truthy :: "jsval \<Rightarrow> bool" where
  "truthy Undefined = False"
| "truthy Null = False"
| "truthy (Bool b) = b"
| "truthy (Num n) = (n \<noteq> 0)"
| "truthy (Str s) = (s \<noteq> [])"
| "truthy (Fun f) = True"
| "truthy (Rec kvs) = True"
| "truthy (Locked kvs locked) = True"
| "truthy (Comp c) = True"
| "truthy (Promise p) = True"

text \<open>The operator \<open>a || b\<close>.\<close>

definition js_or :: "jsval \<Rightarrow> jsval \<Rightarrow> jsval" where
  "js_or a b = (if truthy a then a else b)"

text \<open>
  Modelled from the spec: the class \<open>Observable\<close> of the host framework
  (module \<open>data/observable\<close>) is not part of the repository. Following section 6
  of the specification, \<open>Observable store\<close> is an object exposing \<open>get(name)\<close>
  and \<open>set(name, value)\<close> over a key-value store; change notification is not
  modelled. The other kind of binding context, \<open>Plain props assign\<close>, is a
  plain object. \<open>props name\<close> is what the property read
  \<open>bindingContext[name]\<close> gives (\<open>Undefined\<close> for a property that is absent).
  \<open>assign props name v\<close> is what the assignment \<open>bindingContext[name] = v\<close>
  does to the object in strict code, the code being strict: \<open>None\<close> when the
  engine throws a \<open>TypeError\<close> (a frozen object, a read-only property, a new
  property on an object that is not extensible), and otherwise the property
  reads of the object after the assignment. Where the assignment stores a data
  property these are \<open>props(name := v)\<close>; they are something else where it runs
  a setter, as for the name \<open>__proto__\<close> on an object that inherits from
  \<open>Object.prototype\<close>, which stores nothing under that name.
\<close>

type_synonym assignment = "(string \<Rightarrow> jsval) \<Rightarrow> string \<Rightarrow> jsval \<Rightarrow> (string \<Rightarrow> jsval) option"

datatype binding_context =
    Observable "string \<Rightarrow> jsval"
  | Plain "string \<Rightarrow> jsval" assignment

text \<open>
  The assignment on an extensible object that has no prototype and only
  writable data properties, such as \<open>Object.create(null)\<close>: every name is
  stored. And the assignment on a frozen object.
\<close>

definition storesProperties :: assignment where
  "storesProperties props name v = Some (props(name := v))"

definition frozenObject :: assignment where
  "frozenObject props name v = None"

text \<open>\<open>getBindingContextProperty\<close> of component-utils.js.\<close>

fun getBindingContextProperty :: "binding_context \<Rightarrow> string \<Rightarrow> jsval" where
  "getBindingContextProperty (Observable store) propertyName = store propertyName"
| "getBindingContextProperty (Plain props assign) propertyName =
     (case props ''get'' of
        Fun f \<Rightarrow> f propertyName
      | _ \<Rightarrow> props propertyName)"

text \<open>
  The body of \<open>Component.set\<close> once the binding context is known: the
  context's own \<open>set\<close> when it has one, the assignment
  \<open>this.bindingContext[name] = value\<close> otherwise. A function found under \<open>set\<close>
  in a plain object is called and, being free of side effects, leaves the
  object as it is. The result is \<open>None\<close> when the assignment throws its
  \<open>TypeError\<close>.
\<close>

fun setBindingContextProperty :: "binding_context \<Rightarrow> string \<Rightarrow> jsval \<Rightarrow> binding_context option" where
  "setBindingContextProperty (Observable store) name v = Some (Observable (store(name := v)))"
| "setBindingContextProperty (Plain props assign) name v =
     (case props ''set'' of
        Fun f \<Rightarrow> Some (Plain props assign)
      | _ \<Rightarrow>
          (case assign props name v of
             None \<Rightarrow> None
           | Some props' \<Rightarrow> Some (Plain props' assign)))"

section \<open>Views, components and the world\<close>

text \<open>
  The errors that are thrown, under the names of the specification where it
  has one: \<open>NotInitializedError\<close> by the getter \<open>view\<close> ("Cannot get view,
  because it has not been set yet."), \<open>UninitializedContextError\<close> by
  \<open>_validateBindingContext\<close>, \<open>AmbiguousInstanceError\<close> by the method proxy
  that finds no component for a view, \<open>TraversalBoundError\<close> by
  \<open>getComponentForView\<close> when \<open>maxIterations\<close> is used up. \<open>TypeError\<close> and
  \<open>RangeError\<close> are the engine's own: a property read on \<open>undefined\<close> or
  \<open>null\<close> and an assignment that strict code may not make, and the exhausted
  call stack. \<open>HookError\<close> is whatever a hook
  written by the user throws.
\<close>

datatype error =
    NotInitializedError
  | UninitializedContextError
  | AmbiguousInstanceError
  | TraversalBoundError
  | TypeError
  | RangeError
  | HookError

text \<open>
  A view of the host framework, reduced to the members the component layer
  reads and writes. \<open>v_parent\<close> is the parent view, which the code reads both
  as \<open>parent\<close> and as \<open>_parent\<close>. \<open>v_ownProps\<close> are the view's own properties in the order of
  \<open>Object.getOwnPropertyNames\<close>; \<open>v_classProps\<close> tells for which names a
  freshly constructed view of the same class has a value other than
  \<open>undefined\<close>; \<open>v_loadedListeners\<close> are the components whose \<open>_onPageLoaded\<close>
  is subscribed to the view's \<open>loaded\<close> event, \<open>v_unloadedListeners\<close> the
  component classes whose manager subscribed its handler to the \<open>unloaded\<close> event.
\<close>

record view =
  v_bindingContext :: "nat option"
  v_parent :: "nat option"
  v_page :: "nat option"
  v_isLoaded :: bool
  v_navigationContext :: jsval
  v_ownProps :: "(string \<times> jsval) list"
  v_classProps :: "string \<Rightarrow> bool"
  v_loadedListeners :: "nat list"
  v_unloadedListeners :: "nat list"

text \<open>
  A component instance: the fields the code stores on \<open>this\<close>, the class it was
  constructed from, and the function object installed as its own
  \<open>onPageLoaded\<close> property when a nested component has patched it.
\<close>

record component =
  c_id :: "string option"
  c_view :: "nat option"
  c_modalContext :: jsval
  c_closeModalCallback :: jsval
  c_class :: nat
  c_ownHook :: "nat option"

text \<open>
  A function object in the role of \<open>onPageLoaded\<close>, together with the two
  properties \<open>_wasCalled\<close> and \<open>_returnValue\<close> that \<open>_callPageLoadedHook\<close> puts on
  it. \<open>ProtoHook k\<close> is the method as class \<open>k\<close> defines it, found on the class
  prototype; \<open>Wrapper orig p\<close> is the function that \<open>_onPageLoaded\<close> installs on a
  parent component, \<open>orig\<close> being the parent's previous function and \<open>p\<close> the
  parent it was bound to.
\<close>

datatype hookbody = ProtoHook nat | Wrapper nat nat

record fnobj =
  f_body :: hookbody
  f_wasCalled :: bool
  f_returnValue :: jsval

text \<open>What the hook written by the user does when it runs.\<close>

datatype hookresult = Returns jsval | Throws

text \<open>The lines that \<open>ComponentManager._error\<close> writes to the console.\<close>

datatype logentry =
    NoBindingContextToDeallocate
  | NoComponentMatchesId jsval
  | SingletonNotInstantiated string

text \<open>
  The state of the program: the views of the host, the heap of binding
  contexts, the component instances, the function objects of the hooks, and
  for every component class its prototype's hook (\<open>protoHook\<close>), the behaviour
  of the hook its author wrote (\<open>userHook\<close>), the static \<open>isSingleton\<close> and the
  list \<open>_instances\<close> of its manager. \<open>reactions\<close> holds the continuations
  registered on promises as \<open>(promise, component, derived promise)\<close>: once the
  promise settles, \<open>_callPageLoadedHook\<close> of the component runs. \<open>trace\<close> lists
  the components whose user hook ran, in order; \<open>navigated\<close> lists the
  arguments handed to \<open>frame.topmost().navigate\<close>; \<open>stackLimit\<close> is the
  depth of nested calls after which the engine throws a \<open>RangeError\<close>.
\<close>

record world =
  views :: "nat \<Rightarrow> view"
  contexts :: "nat \<Rightarrow> binding_context"
  nextContext :: nat
  components :: "nat \<Rightarrow> component"
  nextComponent :: nat
  hookFns :: "nat \<Rightarrow> fnobj"
  nextHookFn :: nat
  nextPromise :: nat
  stackLimit :: nat
  protoHook :: "nat \<Rightarrow> nat"
  userHook :: "nat \<Rightarrow> hookresult"
  isSingleton :: "nat \<Rightarrow> bool"
  instances :: "nat \<Rightarrow> nat list"
  reactions :: "(nat \<times> nat \<times> nat) list"
  trace :: "nat list"
  consoleLog :: "logentry list"
  navigated :: "jsval list"

subsection \<open>Accessors of \<open>Component\<close>\<close>

text \<open>The getter \<open>view\<close>.\<close>

definition getView :: "world \<Rightarrow> nat \<Rightarrow> error + nat" where
  "getView w c =
     (case c_view (components w c) of
        Some v \<Rightarrow> Inr v
      | None \<Rightarrow> Inl NotInitializedError)"

text \<open>The getter \<open>bindingContext\<close>: \<open>this.view.bindingContext\<close>.\<close>

definition getBindingContext :: "world \<Rightarrow> nat \<Rightarrow> error + nat option" where
  "getBindingContext w c =
     (case getView w c of
        Inl e \<Rightarrow> Inl e
      | Inr v \<Rightarrow> Inr (v_bindingContext (views w v)))"

text \<open>\<open>_validateBindingContext\<close>; on success it yields the context's address.\<close>

definition validateBindingContext :: "world \<Rightarrow> nat \<Rightarrow> error + nat" where
  "validateBindingContext w c =
     (case getBindingContext w c of
        Inl e \<Rightarrow> Inl e
      | Inr None \<Rightarrow> Inl UninitializedContextError
      | Inr (Some r) \<Rightarrow> Inr r)"

text \<open>\<open>Component.get\<close>.\<close>

definition component_get :: "world \<Rightarrow> nat \<Rightarrow> string \<Rightarrow> error + jsval" where
  "component_get w c name =
     (case validateBindingContext w c of
        Inl e \<Rightarrow> Inl e
      | Inr r \<Rightarrow> Inr (getBindingContextProperty (contexts w r) name))"

text \<open>\<open>Component.set\<close>.\<close>

definition component_set :: "world \<Rightarrow> nat \<Rightarrow> string \<Rightarrow> jsval \<Rightarrow> error + world" where
  "component_set w c name v =
     (case validateBindingContext w c of
        Inl e \<Rightarrow> Inl e
      | Inr r \<Rightarrow>
          (case setBindingContextProperty (contexts w r) name v of
             None \<Rightarrow> Inl TypeError
           | Some ctx \<Rightarrow> Inr (w\<lparr>contexts := (contexts w)(r := ctx)\<rparr>)))"

text \<open>The getter \<open>modalContext\<close>.\<close>

definition modalContext :: "world \<Rightarrow> nat \<Rightarrow> jsval" where
  "modalContext w c = c_modalContext (components w c)"

subsection \<open>Concrete states used by the examples\<close>

definition blankView :: view where
  "blankView = \<lparr>v_bindingContext = None, v_parent = None, v_page = None, v_isLoaded = False,
     v_navigationContext = Undefined, v_ownProps = [], v_classProps = (\<lambda>name. False),
     v_loadedListeners = [], v_unloadedListeners = []\<rparr>"

text \<open>The fields of an instance right after \<open>new componentClass()\<close>.\<close>

definition newComponent :: "nat \<Rightarrow> component" where
  "newComponent k = \<lparr>c_id = None, c_view = None, c_modalContext = Undefined,
     c_closeModalCallback = Undefined, c_class = k, c_ownHook = None\<rparr>"

definition emptyWorld :: world where
  "emptyWorld = \<lparr>views = (\<lambda>v. blankView), contexts = (\<lambda>r. Observable (\<lambda>name. Undefined)),
     nextContext = 0, components = (\<lambda>c. newComponent 0), nextComponent = 0,
     hookFns = (\<lambda>f. \<lparr>f_body = ProtoHook 0, f_wasCalled = False, f_returnValue = Undefined\<rparr>),
     nextHookFn = 1, nextPromise = 0, stackLimit = 100, protoHook = (\<lambda>k. 0), userHook = (\<lambda>k. Returns Undefined),
     isSingleton = (\<lambda>k. False), instances = (\<lambda>k. []), reactions = [], trace = [],
     consoleLog = [], navigated = []\<rparr>"

text \<open>
  A world with one component, number 0, whose view, number 0, has the given
  object as its binding context.
\<close>

definition attachedWorld :: "binding_context \<Rightarrow> world" where
  "attachedWorld ctx = emptyWorld\<lparr>
      views := (views emptyWorld)(0 := blankView\<lparr>v_bindingContext := Some 0\<rparr>),
      contexts := (contexts emptyWorld)(0 := ctx), nextContext := 1,
      components := (components emptyWorld)(0 := (newComponent 0)\<lparr>c_view := Some 0\<rparr>),
      nextComponent := 1\<rparr>"

text \<open>The function \<open>function () { return undefined; }\<close>.\<close>

definition constantUndefined :: "string \<Rightarrow> jsval" where
  "constantUndefined name = Undefined"

subsection \<open>Round trip of \<open>set\<close> and \<open>get\<close>\<close>

text \<open>The statements \<open>this.set(x, v); return this.get(x);\<close>.\<close>

definition set_then_get :: "world \<Rightarrow> nat \<Rightarrow> string \<Rightarrow> jsval \<Rightarrow> error + jsval" where
  "set_then_get w c x v =
     (case component_set w c x v of
        Inl e \<Rightarrow> Inl e
      | Inr w' \<Rightarrow> component_get w' c x)"

text \<open>
  A plain object under which the write of \<open>v\<close> to \<open>x\<close> goes to the property and
  the read comes from it: no function is stored under \<open>set\<close>, the assignment
  of \<open>v\<close> to \<open>x\<close> stores the property, and after the write no function is
  stored under \<open>get\<close>.
\<close>

fun roundTripSafe :: "binding_context \<Rightarrow> string \<Rightarrow> jsval \<Rightarrow> bool" where
  "roundTripSafe (Observable store) x v = True"
| "roundTripSafe (Plain props assign) x v =
     (typeof (props ''set'') \<noteq> ''function'' \<and>
      assign props x v = Some (props(x := v)) \<and>
      typeof ((props(x := v)) ''get'') \<noteq> ''function'')"

section \<open>Binding a component to its view\<close>

text \<open>\<open>key.includes(sub)\<close>.\<close>

fun str_includes :: "string \<Rightarrow> string \<Rightarrow> bool" where
  "str_includes [] sub = (sub = [])"
| "str_includes (c # cs) sub = (take (length sub) (c # cs) = sub \<or> str_includes cs sub)"

definition shouldIgnoreKey :: "string \<Rightarrow> bool" where
  "shouldIgnoreKey key = (key = ''exports'' \<or> str_includes key ''xmlns'')"

text \<open>\<open>key[0] !== '_'\<close>.\<close>

fun notUnderscored :: "string \<Rightarrow> bool" where
  "notUnderscored [] = True"
| "notUnderscored (c # cs) = (c \<noteq> CHR ''_'')"

text \<open>The property read \<open>object[name]\<close> on an object given by its properties.\<close>

definition lookupProp :: "(string \<times> jsval) list \<Rightarrow> string \<Rightarrow> jsval" where
  "lookupProp kvs name = (case map_of kvs name of Some v \<Rightarrow> v | None \<Rightarrow> Undefined)"

text \<open>
  \<open>_getNamesOfPropertiesPassedAsXmlAttributes\<close>: the view's own property names
  that a new instance of the view's class leaves undefined, that do not start
  with an underscore and that are not ignored. \<open>xmlAttributeNames\<close> is its loop
  over the own property names of the view.
\<close>

definition xmlAttributeNames :: "world \<Rightarrow> nat \<Rightarrow> string list" where
  "xmlAttributeNames w v =
     filter (\<lambda>key. \<not> v_classProps (views w v) key \<and> notUnderscored key \<and> \<not> shouldIgnoreKey key)
       (map fst (v_ownProps (views w v)))"

definition getNamesOfPropertiesPassedAsXmlAttributes :: "world \<Rightarrow> nat \<Rightarrow> error + string list" where
  "getNamesOfPropertiesPassedAsXmlAttributes w c =
     (case getView w c of
        Inl e \<Rightarrow> Inl e
      | Inr v \<Rightarrow> Inr (xmlAttributeNames w v))"

text \<open>
  The three candidate values of one attribute in \<open>init\<close>. Each of the two
  \<open>try\<close> blocks leaves its variable undefined when it throws: the first when
  \<open>get\<close> throws, the second when the view has no \<open>_parent\<close> or the parent's
  binding context is undefined.
\<close>

definition valueFromView :: "world \<Rightarrow> nat \<Rightarrow> string \<Rightarrow> jsval" where
  "valueFromView w v paramName = lookupProp (v_ownProps (views w v)) paramName"

definition valueFromOriginalBindingContext :: "world \<Rightarrow> nat \<Rightarrow> string \<Rightarrow> jsval" where
  "valueFromOriginalBindingContext w c paramName =
     (case component_get w c paramName of
        Inl e \<Rightarrow> Undefined
      | Inr x \<Rightarrow> x)"

definition valueFromParentBindingContext :: "world \<Rightarrow> nat \<Rightarrow> string \<Rightarrow> jsval" where
  "valueFromParentBindingContext w v paramName =
     (case v_parent (views w v) of
        None \<Rightarrow> Undefined
      | Some p \<Rightarrow>
          (case v_bindingContext (views w p) of
             None \<Rightarrow> Undefined
           | Some r \<Rightarrow> getBindingContextProperty (contexts w r) paramName))"

text \<open>
  The value stored in \<open>xmlParamsToApply\<close> for one attribute:
  \<open>valueFromOriginalBindingContext || valueFromParentBindingContext || valueFromView\<close>.
\<close>

definition resolveXmlParam :: "world \<Rightarrow> nat \<Rightarrow> nat \<Rightarrow> string \<Rightarrow> jsval" where
  "resolveXmlParam w c v paramName =
     js_or (js_or (valueFromOriginalBindingContext w c paramName)
                  (valueFromParentBindingContext w v paramName))
           (valueFromView w v paramName)"

text \<open>
  The first loop of \<open>init\<close>, which fills the object \<open>xmlParamsToApply\<close>. The
  names are attribute names, none of them an array index, so \<open>for ... in\<close>
  later enumerates them in the order of insertion.
\<close>

fun collectXmlParams :: "world \<Rightarrow> nat \<Rightarrow> nat \<Rightarrow> string list \<Rightarrow> (string \<times> jsval) list
    \<Rightarrow> (string \<times> jsval) list" where
  "collectXmlParams w c v [] xmlParamsToApply = xmlParamsToApply"
| "collectXmlParams w c v (paramName # rest) xmlParamsToApply =
     collectXmlParams w c v rest
       (AList.update paramName (resolveXmlParam w c v paramName) xmlParamsToApply)"

text \<open>\<open>new Observable()\<close>: a fresh, empty observable on the heap.\<close>

definition newObservable :: "world \<Rightarrow> nat \<times> world" where
  "newObservable w =
     (nextContext w,
      w\<lparr>contexts := (contexts w)(nextContext w := Observable (\<lambda>name. Undefined)),
        nextContext := Suc (nextContext w)\<rparr>)"

text \<open>\<open>view.bindingContext = r\<close>.\<close>

definition assignBindingContext :: "nat \<Rightarrow> nat option \<Rightarrow> world \<Rightarrow> world" where
  "assignBindingContext v r w =
     w\<lparr>views := (views w)(v := (views w v)\<lparr>v_bindingContext := r\<rparr>)\<rparr>"

text \<open>The binding context of the view's \<open>_parent\<close>, undefined without a parent.\<close>

definition parentBindingContext :: "world \<Rightarrow> nat \<Rightarrow> nat option" where
  "parentBindingContext w v =
     (case v_parent (views w v) of
        None \<Rightarrow> None
      | Some p \<Rightarrow> v_bindingContext (views w p))"

text \<open>\<open>_setNewBindingContextIfNeeded\<close>.\<close>

definition setNewBindingContextIfNeeded :: "nat \<Rightarrow> world \<Rightarrow> error + world" where
  "setNewBindingContextIfNeeded c w =
     (case getView w c of
        Inl e \<Rightarrow> Inl e
      | Inr v \<Rightarrow>
          if v_bindingContext (views w v) = parentBindingContext w v
          then (case newObservable w of (r, w') \<Rightarrow> Inr (assignBindingContext v (Some r) w'))
          else Inr w)"

text \<open>
  A loop of \<open>this.set(key, value)\<close> over properties. It stops at the first
  \<open>set\<close> that throws; what was written before stays written.
\<close>

fun setAll :: "nat \<Rightarrow> (string \<times> jsval) list \<Rightarrow> world \<Rightarrow> error option \<times> world" where
  "setAll c [] w = (None, w)"
| "setAll c ((key, v) # rest) w =
     (case component_set w c key v of
        Inl e \<Rightarrow> (Some e, w)
      | Inr w' \<Rightarrow> setAll c rest w')"

text \<open>
  The properties that \<open>for (key in context)\<close> enumerates, with their values: for
  \<open>null\<close> none, for an object its enumerable properties. A promise has none; the
  fields of a component reached through \<open>Comp\<close> are not enumerated here.
\<close>

fun enumerableProps :: "jsval \<Rightarrow> (string \<times> jsval) list" where
  "enumerableProps (Rec kvs) = kvs"
| "enumerableProps (Locked kvs locked) = kvs"
| "enumerableProps v = []"

text \<open>\<open>_setNavigationContextProperties\<close>.\<close>

definition setNavigationContextProperties :: "nat \<Rightarrow> jsval \<Rightarrow> world \<Rightarrow> error option \<times> world" where
  "setNavigationContextProperties c ctx w =
     (if typeof ctx = ''object'' then setAll c (enumerableProps ctx) w else (None, w))"

section \<open>The order of the \<open>onPageLoaded\<close> hooks\<close>

text \<open>The property read \<open>component.onPageLoaded\<close>: own property first, then the prototype.\<close>

definition resolveHook :: "world \<Rightarrow> nat \<Rightarrow> nat" where
  "resolveHook w c =
     (case c_ownHook (components w c) of
        Some f \<Rightarrow> f
      | None \<Rightarrow> protoHook w (c_class (components w c)))"

definition markCalled :: "nat \<Rightarrow> world \<Rightarrow> world" where
  "markCalled f w = w\<lparr>hookFns := (hookFns w)(f := (hookFns w f)\<lparr>f_wasCalled := True\<rparr>)\<rparr>"

definition storeReturnValue :: "nat \<Rightarrow> jsval \<Rightarrow> world \<Rightarrow> world" where
  "storeReturnValue f r w = w\<lparr>hookFns := (hookFns w)(f := (hookFns w f)\<lparr>f_returnValue := r\<rparr>)\<rparr>"

text \<open>
  \<open>promise.catch(function () {}).then(function () { return c._callPageLoadedHook(); })\<close>:
  the continuation is recorded and the promise that \<open>then\<close> returns is the
  value. The continuation runs once \<open>promise\<close> has settled; the settling of
  promises belongs to the engine and is not run here.
\<close>

definition chainAfter :: "nat \<Rightarrow> nat \<Rightarrow> world \<Rightarrow> jsval \<times> world" where
  "chainAfter promise c w =
     (Promise (nextPromise w),
      w\<lparr>reactions := reactions w @ [(promise, c, nextPromise w)],
        nextPromise := Suc (nextPromise w)\<rparr>)"

text \<open>The user's hook as class \<open>k\<close> defines it, running on component \<open>this\<close>.\<close>

definition runUserHook :: "nat \<Rightarrow> nat \<Rightarrow> world \<Rightarrow> (error + jsval) \<times> world" where
  "runUserHook k this w =
     (case userHook w k of
        Returns r \<Rightarrow> (Inr r, w\<lparr>trace := trace w @ [this]\<rparr>)
      | Throws \<Rightarrow> (Inl HookError, w\<lparr>trace := trace w @ [this]\<rparr>))"

text \<open>
  \<open>_callPageLoadedHook\<close> on component \<open>c\<close>, and the call of a function object
  \<open>f\<close> with receiver \<open>this\<close>. The first argument is the depth of calls still
  available. The wrapper is the function that \<open>_onPageLoaded\<close> assigns to
  \<open>parentComponent.onPageLoaded\<close>: it calls the original function bound to the
  parent inside \<open>try\<close>, and then \<open>this._callPageLoadedHook()\<close> on its own
  receiver.
\<close>

fun callPageLoadedHook :: "nat \<Rightarrow> nat \<Rightarrow> world \<Rightarrow> (error + jsval) \<times> world"
  and invokeHook :: "nat \<Rightarrow> nat \<Rightarrow> nat \<Rightarrow> world \<Rightarrow> (error + jsval) \<times> world" where
  "callPageLoadedHook 0 c w = (Inl RangeError, w)"
| "callPageLoadedHook (Suc n) c w =
     (let f = resolveHook w c in
      case invokeHook n f c (markCalled f w) of
        (Inl e, w') \<Rightarrow> (Inl e, w')
      | (Inr r, w') \<Rightarrow>
          (let w'' = storeReturnValue f r w'
           in (Inr (f_returnValue (hookFns w'' (resolveHook w'' c))), w'')))"
| "invokeHook 0 f this w = (Inl RangeError, w)"
| "invokeHook (Suc n) f this w =
     (case f_body (hookFns w f) of
        ProtoHook k \<Rightarrow> runUserHook k this w
      | Wrapper original parent \<Rightarrow>
          (case invokeHook n original parent w of
             (res, w') \<Rightarrow>
               (case (case res of Inl e \<Rightarrow> Undefined | Inr r \<Rightarrow> r) of
                  Promise p \<Rightarrow> (case chainAfter p this w' of (d, w'') \<Rightarrow> (Inr d, w''))
                | _ \<Rightarrow> callPageLoadedHook n this w')))"

text \<open>
  \<open>getComponentForView\<close> of component-utils.js; the last argument is
  \<open>maxIterations\<close>.
\<close>

fun getComponentForView :: "world \<Rightarrow> nat \<Rightarrow> nat \<Rightarrow> error + jsval" where
  "getComponentForView w view 0 = Inl TraversalBoundError"
| "getComponentForView w view (Suc maxIterations) =
     (let found = (case v_bindingContext (views w view) of
                     None \<Rightarrow> Undefined
                   | Some r \<Rightarrow> getBindingContextProperty (contexts w r) ''_component'')
      in if truthy found then Inr found
         else (case v_parent (views w view) of
                 Some p \<Rightarrow> getComponentForView w p maxIterations
               | None \<Rightarrow> Inr Null))"

text \<open>\<open>_getParentComponent\<close>.\<close>

definition getParentComponent :: "world \<Rightarrow> nat \<Rightarrow> error + jsval" where
  "getParentComponent w c =
     (case getView w c of
        Inl e \<Rightarrow> Inl e
      | Inr v \<Rightarrow>
          (case v_parent (views w v) of
             None \<Rightarrow> Inr Null
           | Some p \<Rightarrow> getComponentForView w p 500))"

text \<open>
  The last branch of \<open>_onPageLoaded\<close>: a new function object wrapping the
  parent's current \<open>onPageLoaded\<close> becomes the parent's own property.
\<close>

definition patchParent :: "nat \<Rightarrow> world \<Rightarrow> world" where
  "patchParent p w =
     w\<lparr>hookFns := (hookFns w)(nextHookFn w :=
          \<lparr>f_body = Wrapper (resolveHook w p) p, f_wasCalled = False, f_returnValue = Undefined\<rparr>),
       nextHookFn := Suc (nextHookFn w),
       components := (components w)(p := (components w p)\<lparr>c_ownHook := Some (nextHookFn w)\<rparr>)\<rparr>"

text \<open>\<open>_onPageLoaded\<close>, the listener of the page's \<open>loaded\<close> event.\<close>

definition onPageLoadedListener :: "nat \<Rightarrow> world \<Rightarrow> (error + jsval) \<times> world" where
  "onPageLoadedListener c w =
     (case getParentComponent w c of
        Inl e \<Rightarrow> (Inl e, w)
      | Inr parentComponent \<Rightarrow>
          if \<not> truthy parentComponent then callPageLoadedHook (stackLimit w) c w
          else (case parentComponent of
                  Comp p \<Rightarrow>
                    if f_wasCalled (hookFns w (resolveHook w p))
                    then (case f_returnValue (hookFns w (resolveHook w p)) of
                            Promise q \<Rightarrow> (case chainAfter q c w of (d, w') \<Rightarrow> (Inr d, w'))
                          | _ \<Rightarrow> callPageLoadedHook (stackLimit w) c w)
                    else (Inr Undefined, patchParent p w)
                | _ \<Rightarrow> (Inl TypeError, w)))"

text \<open>
  Modelled from the spec: the event dispatch of the host, which is not part of
  the repository (section 6: \<open>on(eventName, handler)\<close>). When the host raises
  the \<open>loaded\<close> event of a page, the subscribed listeners run in the order of
  subscription, and a listener that throws ends the dispatch.
\<close>

fun runLoadedListeners :: "nat list \<Rightarrow> world \<Rightarrow> error option \<times> world" where
  "runLoadedListeners [] w = (None, w)"
| "runLoadedListeners (c # cs) w =
     (case onPageLoadedListener c w of
        (Inl e, w') \<Rightarrow> (Some e, w')
      | (Inr r, w') \<Rightarrow> runLoadedListeners cs w')"

definition firePageLoaded :: "nat \<Rightarrow> world \<Rightarrow> error option \<times> world" where
  "firePageLoaded page w = runLoadedListeners (v_loadedListeners (views w page)) w"

text \<open>
  \<open>_hookUpPageLoadedEvent\<close>. Its last statement replaces \<open>page.onLoaded\<close> by a
  function that passes every call on to the original; it changes nothing that
  is modelled here.
\<close>

definition subscribeLoaded :: "nat \<Rightarrow> nat \<Rightarrow> world \<Rightarrow> world" where
  "subscribeLoaded page c w =
     w\<lparr>views := (views w)(page := (views w page)\<lparr>v_loadedListeners := v_loadedListeners (views w page) @ [c]\<rparr>)\<rparr>"

definition hookUpPageLoadedEvent :: "nat \<Rightarrow> world \<Rightarrow> error option \<times> world" where
  "hookUpPageLoadedEvent c w =
     (case getView w c of
        Inl e \<Rightarrow> (Some e, w)
      | Inr v \<Rightarrow>
          (case (if v_page (views w v) = Some v \<and> v_isLoaded (views w v)
                 then callPageLoadedHook (stackLimit w) c w else (Inr Undefined, w)) of
             (Inl e, w') \<Rightarrow> (Some e, w')
           | (Inr r, w') \<Rightarrow>
               (case v_page (views w' v) of
                  None \<Rightarrow> (Some TypeError, w')
                | Some page \<Rightarrow> (None, subscribeLoaded page c w'))))"

section \<open>The initialization hooks of \<open>Component\<close>\<close>

text \<open>\<open>this._view = options.object\<close>.\<close>

definition assignView :: "nat \<Rightarrow> nat \<Rightarrow> world \<Rightarrow> world" where
  "assignView c v w = w\<lparr>components := (components w)(c := (components w c)\<lparr>c_view := Some v\<rparr>)\<rparr>"

text \<open>
  The part of \<open>init\<close> that binds the attributes: the assignment of the view,
  the loop that resolves the attributes, \<open>_setNewBindingContextIfNeeded\<close>, and
  the loop that writes \<open>xmlParamsToApply\<close> to the binding context.
\<close>

definition bindXmlParams :: "nat \<Rightarrow> nat \<Rightarrow> world \<Rightarrow> error option \<times> world" where
  "bindXmlParams c v w =
     (let w1 = assignView c v w in
      case getNamesOfPropertiesPassedAsXmlAttributes w1 c of
        Inl e \<Rightarrow> (Some e, w1)
      | Inr paramNames \<Rightarrow>
          (let xmlParamsToApply = collectXmlParams w1 c v paramNames [] in
           case setNewBindingContextIfNeeded c w1 of
             Inl e \<Rightarrow> (Some e, w1)
           | Inr w2 \<Rightarrow> setAll c xmlParamsToApply w2))"

text \<open>\<open>init\<close>, with \<open>v\<close> for \<open>options.object\<close>.\<close>

definition init :: "nat \<Rightarrow> nat \<Rightarrow> world \<Rightarrow> error option \<times> world" where
  "init c v w =
     (case bindXmlParams c v w of
        (Some e, w1) \<Rightarrow> (Some e, w1)
      | (None, w1) \<Rightarrow>
          (case setNavigationContextProperties c (v_navigationContext (views w1 v)) w1 of
             (Some e, w2) \<Rightarrow> (Some e, w2)
           | (None, w2) \<Rightarrow> hookUpPageLoadedEvent c w2))"

text \<open>The argument of a lifecycle event.\<close>

record options =
  o_object :: nat
  o_context :: jsval
  o_closeCallback :: jsval

text \<open>\<open>onShownModally\<close>.\<close>

definition storeModal :: "nat \<Rightarrow> options \<Rightarrow> world \<Rightarrow> world" where
  "storeModal c opts w =
     w\<lparr>components := (components w)(c := (components w c)
          \<lparr>c_modalContext := o_context opts, c_closeModalCallback := o_closeCallback opts\<rparr>)\<rparr>"

definition onShownModally :: "nat \<Rightarrow> options \<Rightarrow> world \<Rightarrow> error option \<times> world" where
  "onShownModally c opts w =
     (case init c (o_object opts) w of
        (Some e, w1) \<Rightarrow> (Some e, w1)
      | (None, w1) \<Rightarrow>
          (let w2 = storeModal c opts w1
           in setNavigationContextProperties c (c_modalContext (components w2 c)) w2))"

datatype hookname = OnLoaded | OnNavigatingTo | OnNavigatedTo | OnShownModally

text \<open>\<open>component[methodName](...args)\<close> for the four initialization hooks.\<close>

fun callInitHook :: "hookname \<Rightarrow> nat \<Rightarrow> options \<Rightarrow> world \<Rightarrow> error option \<times> world" where
  "callInitHook OnLoaded c opts w = init c (o_object opts) w"
| "callInitHook OnNavigatingTo c opts w = init c (o_object opts) w"
| "callInitHook OnNavigatedTo c opts w = init c (o_object opts) w"
| "callInitHook OnShownModally c opts w = onShownModally c opts w"

section \<open>Navigation\<close>

text \<open>
  Modelled from the spec: \<open>frame.topmost().navigate\<close> of the host, which is
  not part of the repository (section 6). The argument it receives is
  recorded.
\<close>

definition hostNavigate :: "jsval \<Rightarrow> world \<Rightarrow> world" where
  "hostNavigate arg w = w\<lparr>navigated := navigated w @ [arg]\<rparr>"

text \<open>
  \<open>navigate\<close>, with \<open>arg\<close> for \<open>arguments[0]\<close>. The read \<open>arg.component\<close>
  throws for \<open>null\<close>; the assignment \<open>arg.moduleName = ...\<close>, made in strict
  code, throws where the entry does not allow it, and the host is then not
  called.
\<close>

definition navigate :: "jsval \<Rightarrow> world \<Rightarrow> error option \<times> world" where
  "navigate arg w =
     (if typeof arg = ''object''
      then (case arg of
              Null \<Rightarrow> (Some TypeError, w)
            | Rec kvs \<Rightarrow>
                (case lookupProp kvs ''component'' of
                   Str component \<Rightarrow>
                     (None, hostNavigate
                        (Rec (AList.update ''moduleName''
                                (Str (''components/'' @ component @ ''/'' @ component)) kvs)) w)
                 | _ \<Rightarrow> (None, hostNavigate arg w))
            | Locked kvs locked \<Rightarrow>
                (case lookupProp kvs ''component'' of
                   Str component \<Rightarrow>
                     if locked ''moduleName'' then (Some TypeError, w)
                     else (None, hostNavigate
                        (Locked (AList.update ''moduleName''
                                (Str (''components/'' @ component @ ''/'' @ component)) kvs) locked) w)
                 | _ \<Rightarrow> (None, hostNavigate arg w))
            | _ \<Rightarrow> (None, hostNavigate arg w))
      else (None, hostNavigate arg w))"

section \<open>The component manager\<close>

text \<open>
  One manager exists per component class \<open>k\<close>; its list \<open>_instances\<close> is
  \<open>instances w k\<close>.
\<close>

text \<open>\<open>_getComponentId\<close>.\<close>

definition getComponentId :: "world \<Rightarrow> nat \<Rightarrow> jsval" where
  "getComponentId w r = getBindingContextProperty (contexts w r) ''_componentId''"

text \<open>The field \<open>_id\<close> of a component as a value.\<close>

definition idOf :: "world \<Rightarrow> nat \<Rightarrow> jsval" where
  "idOf w c = (case c_id (components w c) of Some i \<Rightarrow> Str i | None \<Rightarrow> Undefined)"

text \<open>
  The test \<open>_id === componentId\<close> of the callbacks handed to \<open>find\<close> and
  \<open>findIndex\<close>: \<open>_id\<close> is a string or undefined, so the test holds exactly for
  the same string, or for undefined on both sides.
\<close>

definition idMatches :: "world \<Rightarrow> jsval \<Rightarrow> nat \<Rightarrow> bool" where
  "idMatches w componentId c =
     (case componentId of
        Str s \<Rightarrow> c_id (components w c) = Some s
      | Undefined \<Rightarrow> c_id (components w c) = None
      | _ \<Rightarrow> False)"

text \<open>\<open>Array.prototype.findIndex\<close>, with \<open>None\<close> for the result \<open>-1\<close>.\<close>

fun findIndex :: "('a \<Rightarrow> bool) \<Rightarrow> 'a list \<Rightarrow> nat option" where
  "findIndex P [] = None"
| "findIndex P (x # xs) =
     (if P x then Some 0 else (case findIndex P xs of None \<Rightarrow> None | Some i \<Rightarrow> Some (Suc i)))"

text \<open>\<open>array.splice(index, 1)\<close>.\<close>

definition splice1 :: "nat \<Rightarrow> 'a list \<Rightarrow> 'a list" where
  "splice1 index xs = take index xs @ drop (Suc index) xs"

text \<open>\<open>_getComponentForRootView\<close>, with \<open>None\<close> for \<open>null\<close>.\<close>

definition getComponentForRootView :: "world \<Rightarrow> nat \<Rightarrow> nat \<Rightarrow> nat option" where
  "getComponentForRootView w k view =
     (case v_bindingContext (views w view) of
        None \<Rightarrow> None
      | Some r \<Rightarrow>
          (let componentId = getComponentId w r
           in if \<not> truthy componentId then None
              else find (idMatches w componentId) (instances w k)))"

text \<open>
  The handler that \<open>_addNewComponent\<close> subscribes to the \<open>unloaded\<close> event of
  the view, for the manager of class \<open>k\<close> and with \<open>view\<close> for \<open>options.object\<close>.
\<close>

definition unloadedHandler :: "nat \<Rightarrow> nat \<Rightarrow> world \<Rightarrow> world" where
  "unloadedHandler k view w =
     (case v_bindingContext (views w view) of
        None \<Rightarrow> w\<lparr>consoleLog := consoleLog w @ [NoBindingContextToDeallocate]\<rparr>
      | Some r \<Rightarrow>
          (let componentId = getComponentId w r
           in case findIndex (idMatches w componentId) (instances w k) of
                None \<Rightarrow> w\<lparr>consoleLog := consoleLog w @ [NoComponentMatchesId componentId]\<rparr>
              | Some componentIndex \<Rightarrow>
                  w\<lparr>instances := (instances w)(k := splice1 componentIndex (instances w k))\<rparr>))"

text \<open>
  Modelled from the spec: the event dispatch of the host, as above. When the
  host raises the \<open>unloaded\<close> event of a view, every handler subscribed to it
  runs, in the order of subscription.
\<close>

fun runUnloadedHandlers :: "nat list \<Rightarrow> nat \<Rightarrow> world \<Rightarrow> world" where
  "runUnloadedHandlers [] view w = w"
| "runUnloadedHandlers (k # ks) view w = runUnloadedHandlers ks view (unloadedHandler k view w)"

definition fireUnloaded :: "nat \<Rightarrow> world \<Rightarrow> world" where
  "fireUnloaded view w = runUnloadedHandlers (v_unloadedListeners (views w view)) view w"

text \<open>
  \<open>_addNewComponent\<close>. The identifier is the result of \<open>generateUuid()\<close>,
  which is drawn from \<open>Math.random\<close> and is an input here.
\<close>

definition addNewComponent :: "nat \<Rightarrow> nat \<Rightarrow> string \<Rightarrow> world \<Rightarrow> nat \<times> world" where
  "addNewComponent k view componentId w =
     (let component = nextComponent w;
          w1 = w\<lparr>components := (components w)(component :=
                    (newComponent k)\<lparr>c_id := Some componentId, c_view := Some view\<rparr>),
                 nextComponent := Suc component,
                 instances := (instances w)(k := instances w k @ [component])\<rparr>
      in if isSingleton w1 k then (component, w1)
         else (component,
               w1\<lparr>views := (views w1)(view := (views w1 view)
                     \<lparr>v_unloadedListeners := v_unloadedListeners (views w1 view) @ [k]\<rparr>)\<rparr>))"

text \<open>
  The choice of the instance in the function that \<open>_addInitHookProxyMethod\<close>
  installs: the instance found for the root view, else the first instance of a
  singleton class, else a new one. The boolean is \<open>newComponentAdded\<close>.
\<close>

definition resolveInitTarget :: "nat \<Rightarrow> nat \<Rightarrow> string \<Rightarrow> world \<Rightarrow> (nat \<times> bool) \<times> world" where
  "resolveInitTarget k view uuid w =
     (case getComponentForRootView w k view of
        Some component \<Rightarrow> ((component, False), w)
      | None \<Rightarrow>
          (if isSingleton w k \<and> instances w k \<noteq> []
           then ((hd (instances w k), False), w)
           else (case addNewComponent k view uuid w of
                   (component, w') \<Rightarrow> ((component, True), w'))))"

text \<open>
  The two writes that follow the hook when a component was added:
  \<open>component.set('_componentId', component._id)\<close> and
  \<open>component.set('_component', component)\<close>.
\<close>

definition writeMarkers :: "nat \<Rightarrow> world \<Rightarrow> error option \<times> world" where
  "writeMarkers component w =
     (case component_set w component ''_componentId'' (idOf w component) of
        Inl e \<Rightarrow> (Some e, w)
      | Inr w1 \<Rightarrow>
          (case component_set w1 component ''_component'' (Comp component) of
             Inl e \<Rightarrow> (Some e, w1)
           | Inr w2 \<Rightarrow> (None, w2)))"

text \<open>
  The function that \<open>_addInitHookProxyMethod\<close> installs for \<open>methodName\<close>,
  called by the host with \<open>opts\<close>; \<open>uuid\<close> is what \<open>generateUuid()\<close> returns
  if it is called.
\<close>

definition initHookProxy :: "nat \<Rightarrow> hookname \<Rightarrow> options \<Rightarrow> string \<Rightarrow> world \<Rightarrow> error option \<times> world" where
  "initHookProxy k methodName opts uuid w =
     (case resolveInitTarget k (o_object opts) uuid w of
        ((component, newComponentAdded), w1) \<Rightarrow>
          (case callInitHook methodName component opts w1 of
             (Some e, w2) \<Rightarrow> (Some e, w2)
           | (None, w2) \<Rightarrow>
               if newComponentAdded then writeMarkers component w2 else (None, w2)))"

text \<open>
  The function that \<open>_addProxyMethod\<close> installs for \<open>methodName\<close>, up to the
  call \<open>component[methodName](...args)\<close>: it either throws, or logs and returns
  \<open>undefined\<close>, or calls the method on a component.
\<close>

datatype dispatch = ReturnedUndefined | CalledOn nat

definition proxyMethod :: "nat \<Rightarrow> string \<Rightarrow> nat \<Rightarrow> world \<Rightarrow> (error + dispatch) \<times> world" where
  "proxyMethod k methodName view w =
     (if isSingleton w k
      then (case instances w k of
              [] \<Rightarrow> (Inr ReturnedUndefined,
                     w\<lparr>consoleLog := consoleLog w @ [SingletonNotInstantiated methodName]\<rparr>)
            | component # rest \<Rightarrow> (Inr (CalledOn component), w))
      else (case getComponentForView w view 500 of
              Inl e \<Rightarrow> (Inl e, w)
            | Inr found \<Rightarrow>
                if \<not> truthy found then (Inl AmbiguousInstanceError, w)
                else (case found of
                        Comp component \<Rightarrow> (Inr (CalledOn component), w)
                      | _ \<Rightarrow> (Inl TypeError, w))))"

section \<open>Notions used by the properties\<close>

text \<open>
  Every binding context that a view refers to has been allocated: its address
  lies below the next address that \<open>new Observable()\<close> hands out.
\<close>

definition heapWellFormed :: "world \<Rightarrow> bool" where
  "heapWellFormed w = (\<forall>u r. v_bindingContext (views w u) = Some r \<longrightarrow> r < nextContext w)"

text \<open>
  View 0 has no binding context of its own, its parent, the page, view 1, has
  one; view 0 belongs to component 0.
\<close>

definition orphanWorld :: world where
  "orphanWorld = emptyWorld\<lparr>
      views := (views emptyWorld)(0 := blankView\<lparr>v_parent := Some 1, v_page := Some 1\<rparr>,
                                  1 := blankView\<lparr>v_bindingContext := Some 0, v_page := Some 1\<rparr>),
      nextContext := 1,
      components := (components emptyWorld)(0 := (newComponent 0)\<lparr>c_view := Some 0\<rparr>),
      nextComponent := 1\<rparr>"

text \<open>View 0 shares the binding context of its parent, view 1.\<close>

definition inheritingWorld :: world where
  "inheritingWorld = emptyWorld\<lparr>
      views := (views emptyWorld)(0 := blankView\<lparr>v_parent := Some 1, v_bindingContext := Some 0\<rparr>,
                                  1 := blankView\<lparr>v_bindingContext := Some 0\<rparr>),
      nextContext := 1,
      components := (components emptyWorld)(0 := (newComponent 0)\<lparr>c_view := Some 0\<rparr>),
      nextComponent := 1\<rparr>"

text \<open>A world in which every component class is a singleton and no instance exists.\<close>

definition singletonWorld :: world where
  "singletonWorld = emptyWorld\<lparr>isSingleton := (\<lambda>k. True)\<rparr>"

text \<open>
  A page, view 0, with an observable of its own and not yet loaded, about to be
  shown modally with the string \<open>hello\<close> as its context.
\<close>

definition modalWorld :: world where
  "modalWorld = emptyWorld\<lparr>
      views := (views emptyWorld)(0 := blankView\<lparr>v_bindingContext := Some 0, v_page := Some 0\<rparr>),
      nextContext := 1\<rparr>"

definition modalOptions :: options where
  "modalOptions = \<lparr>o_object = 0, o_context = Str ''hello'', o_closeCallback = Undefined\<rparr>"

subsection \<open>The precedence of attribute values\<close>

text \<open>
  The precedence in the words of the specification (section on the binding
  of attributes). The value a binding context holds for a key is the entry of
  the store of an observable and the property of a plain map.
\<close>

fun contextValue :: "binding_context \<Rightarrow> string \<Rightarrow> jsval" where
  "contextValue (Observable store) key = store key"
| "contextValue (Plain props assign) key = props key"

text \<open>The binding context of the parent view, undefined without a parent.\<close>

definition contextOfParent :: "world \<Rightarrow> nat \<Rightarrow> nat option" where
  "contextOfParent w v =
     (case v_parent (views w v) of
        None \<Rightarrow> None
      | Some p \<Rightarrow> v_bindingContext (views w p))"

text \<open>
  (a) The value already on the component's own binding context, (b) the
  same-named property on the parent view's binding context, (c) the literal
  the host placed on the view object; each is undefined where there is
  nothing to read.
\<close>

definition ownValue :: "world \<Rightarrow> nat \<Rightarrow> string \<Rightarrow> jsval" where
  "ownValue w v name =
     (case v_bindingContext (views w v) of
        None \<Rightarrow> Undefined
      | Some r \<Rightarrow> contextValue (contexts w r) name)"

definition parentValue :: "world \<Rightarrow> nat \<Rightarrow> string \<Rightarrow> jsval" where
  "parentValue w v name =
     (case contextOfParent w v of
        None \<Rightarrow> Undefined
      | Some r \<Rightarrow> contextValue (contexts w r) name)"

definition literalValue :: "world \<Rightarrow> nat \<Rightarrow> string \<Rightarrow> jsval" where
  "literalValue w v name =
     (case map_of (v_ownProps (views w v)) name of
        None \<Rightarrow> Undefined
      | Some x \<Rightarrow> x)"

text \<open>
  A value is empty when it is undefined, null or the empty string. "First
  non-empty match wins": the first of (a), (b), (c) that is not empty, the
  literal standing when the first two are empty.
\<close>

fun isEmptyValue :: "jsval \<Rightarrow> bool" where
  "isEmptyValue Undefined = True"
| "isEmptyValue Null = True"
| "isEmptyValue (Str s) = (s = [])"
| "isEmptyValue v = False"

definition firstNonEmpty :: "world \<Rightarrow> nat \<Rightarrow> string \<Rightarrow> jsval" where
  "firstNonEmpty w v name =
     (if \<not> isEmptyValue (ownValue w v name) then ownValue w v name
      else if \<not> isEmptyValue (parentValue w v name) then parentValue w v name
      else literalValue w v name)"

text \<open>
  The same precedence with "truthy" in the place of "non-empty": \<open>false\<close>
  and \<open>0\<close> are passed over as well.
\<close>

definition firstTruthy :: "world \<Rightarrow> nat \<Rightarrow> string \<Rightarrow> jsval" where
  "firstTruthy w v name =
     (if truthy (ownValue w v name) then ownValue w v name
      else if truthy (parentValue w v name) then parentValue w v name
      else literalValue w v name)"

text \<open>
  The names the view carries as attributes of the template: own properties of
  the view that a newly constructed view of its class leaves undefined, other
  than names with a leading underscore, the name \<open>exports\<close> and names that
  contain \<open>xmlns\<close>.
\<close>

definition passedAsAttribute :: "world \<Rightarrow> nat \<Rightarrow> string \<Rightarrow> bool" where
  "passedAsAttribute w v name =
     (name \<in> fst ` set (v_ownProps (views w v)) \<and>
      \<not> v_classProps (views w v) name \<and>
      (\<forall>rest. name \<noteq> CHR ''_'' # rest) \<and>
      name \<noteq> ''exports'' \<and>
      (\<forall>pre post. name \<noteq> pre @ ''xmlns'' @ post))"

text \<open>
  A binding context whose reads are reads of its entries: an observable, or a
  plain object without a function under \<open>get\<close>.
\<close>

fun readsEntries :: "binding_context \<Rightarrow> bool" where
  "readsEntries (Observable store) = True"
| "readsEntries (Plain props assign) = (typeof (props ''get'') \<noteq> ''function'')"

text \<open>
  A binding context on which writing the given names and reading them back
  goes through its entries: an observable, or a plain object without a
  function under \<open>get\<close> or \<open>set\<close> when neither name is written and the
  assignment to each of the names stores the property.
\<close>

fun keepsWrites :: "binding_context \<Rightarrow> string list \<Rightarrow> bool" where
  "keepsWrites (Observable store) names = True"
| "keepsWrites (Plain props assign) names =
     (typeof (props ''get'') \<noteq> ''function'' \<and> typeof (props ''set'') \<noteq> ''function'' \<and>
      ''get'' \<notin> set names \<and> ''set'' \<notin> set names \<and>
      (\<forall>q name x. name \<in> set names \<longrightarrow> assign q name x = Some (q(name := x))))"

text \<open>
  The scenario of the specification: the view, number 0, carries the static
  attribute \<open>fieldName="firstName"\<close> and the dynamic attribute
  \<open>record="{{ user }}"\<close>, for which the host has left an empty object on the
  view and the resolved value on the binding context that the view shares
  with its parent, view 1.
\<close>

definition userRecord :: jsval where
  "userRecord = Rec [(''firstName'', Str ''Ada'')]"

definition scenarioWorld :: world where
  "scenarioWorld = emptyWorld\<lparr>
      views := (views emptyWorld)(
         0 := blankView\<lparr>v_parent := Some 1, v_bindingContext := Some 0, v_page := Some 1,
                v_ownProps := [(''fieldName'', Str ''firstName''), (''record'', Rec [])]\<rparr>,
         1 := blankView\<lparr>v_bindingContext := Some 0, v_page := Some 1\<rparr>),
      contexts := (contexts emptyWorld)(
         0 := Observable ((\<lambda>name. Undefined)(''user'' := userRecord, ''record'' := userRecord))),
      nextContext := 1\<rparr>"

text \<open>
  The view, number 0, has a binding context of its own, an observable that
  holds a \<open>title\<close>; the binding context of its parent, view 1, holds the
  \<open>record\<close>; the view carries the attributes \<open>fieldName\<close>, \<open>record\<close> and
  \<open>title\<close>.
\<close>

definition precedenceWorld :: world where
  "precedenceWorld = emptyWorld\<lparr>
      views := (views emptyWorld)(
         0 := blankView\<lparr>v_parent := Some 1, v_bindingContext := Some 1, v_page := Some 1,
                v_ownProps := [(''fieldName'', Str ''firstName''), (''record'', Rec []),
                               (''title'', Str ''Untitled'')]\<rparr>,
         1 := blankView\<lparr>v_bindingContext := Some 0, v_page := Some 1\<rparr>),
      contexts := (contexts emptyWorld)(
         0 := Observable ((\<lambda>name. Undefined)(''record'' := userRecord)),
         1 := Observable ((\<lambda>name. Undefined)(''title'' := Str ''Profile''))),
      nextContext := 2\<rparr>"

text \<open>
  The scenario of the specification with a dynamic attribute whose value is
  \<open>false\<close>: the view, number 0, carries \<open>enabled="{{ isOn }}"\<close>, for which
  the host has left an empty object on the view and the resolved value,
  \<open>false\<close>, on the binding context that the view shares with its parent,
  view 1.
\<close>

definition falsyWorld :: world where
  "falsyWorld = emptyWorld\<lparr>
      views := (views emptyWorld)(
         0 := blankView\<lparr>v_parent := Some 1, v_bindingContext := Some 0, v_page := Some 1,
                v_ownProps := [(''enabled'', Rec [])]\<rparr>,
         1 := blankView\<lparr>v_bindingContext := Some 0, v_page := Some 1\<rparr>),
      contexts := (contexts emptyWorld)(
         0 := Observable ((\<lambda>name. Undefined)(''enabled'' := Bool False))),
      nextContext := 1\<rparr>"

text \<open>
  The view, number 0, carries the attribute \<open>text="hello"\<close>, and its class
  defines \<open>text\<close>: a newly constructed view of the class has a value for it.
\<close>

definition classAttributeWorld :: world where
  "classAttributeWorld = emptyWorld\<lparr>
      views := (views emptyWorld)(
         0 := blankView\<lparr>v_parent := Some 1, v_bindingContext := Some 0, v_page := Some 1,
                v_ownProps := [(''text'', Str ''hello'')],
                v_classProps := (\<lambda>name. name = ''text'')\<rparr>,
         1 := blankView\<lparr>v_bindingContext := Some 0, v_page := Some 1\<rparr>),
      nextContext := 1\<rparr>"

subsection \<open>Navigation entries\<close>

text \<open>
  The property read \<open>entry[name]\<close> on a value that is an object (a component
  and a promise have none of the properties read here), and whether strict
  code may not assign to \<open>entry[name]\<close>.
\<close>

fun entryProp :: "jsval \<Rightarrow> string \<Rightarrow> jsval" where
  "entryProp (Rec kvs) name = lookupProp kvs name"
| "entryProp (Locked kvs locked) name = lookupProp kvs name"
| "entryProp v name = Undefined"

fun lockedName :: "jsval \<Rightarrow> string \<Rightarrow> bool" where
  "lockedName (Locked kvs locked) name = locked name"
| "lockedName v name = False"

text \<open>The frozen entry \<open>Object.freeze({ component: 'foo' })\<close>.\<close>

definition frozenEntry :: jsval where
  "frozenEntry = Locked [(''component'', Str ''foo'')] (\<lambda>name. True)"

subsection \<open>Runs of lifecycle events\<close>

text \<open>The binding context is an observable of the host.\<close>

fun isObservable :: "binding_context \<Rightarrow> bool" where
  "isObservable (Observable store) = True"
| "isObservable (Plain props assign) = False"

text \<open>
  Two states that differ at most in the function objects of the hooks, the
  recorded continuations, the trace and the console.
\<close>

definition sameData :: "world \<Rightarrow> world \<Rightarrow> bool" where
  "sameData w w' =
     (views w' = views w \<and> contexts w' = contexts w \<and> nextContext w' = nextContext w \<and>
      components w' = components w \<and> nextComponent w' = nextComponent w \<and>
      instances w' = instances w \<and> isSingleton w' = isSingleton w \<and>
      stackLimit w' = stackLimit w)"

text \<open>
  Two states that differ at most as \<open>sameData\<close> allows and in the content of
  the binding context at address \<open>r\<close>, the subscriptions to \<open>loaded\<close> and the
  modal fields of components.
\<close>

definition writesOnly :: "nat \<Rightarrow> world \<Rightarrow> world \<Rightarrow> bool" where
  "writesOnly r w w' =
     ((\<forall>u. v_bindingContext (views w' u) = v_bindingContext (views w u)) \<and>
      (\<forall>u. v_unloadedListeners (views w' u) = v_unloadedListeners (views w u)) \<and>
      (\<forall>r'. r' \<noteq> r \<longrightarrow> contexts w' r' = contexts w r') \<and>
      (isObservable (contexts w r) \<longrightarrow> isObservable (contexts w' r)) \<and>
      nextContext w' = nextContext w \<and>
      (\<forall>c. c_id (components w' c) = c_id (components w c)) \<and>
      (\<forall>c. c_view (components w' c) = c_view (components w c)) \<and>
      nextComponent w' = nextComponent w \<and>
      instances w' = instances w \<and> isSingleton w' = isSingleton w \<and>
      stackLimit w' = stackLimit w)"

text \<open>The lifecycle events that the host sends to the exports of one module.\<close>

type_synonym hookEvent = "hookname \<times> options \<times> string"

definition eventView :: "hookEvent \<Rightarrow> nat" where
  "eventView ev = o_object (fst (snd ev))"

definition eventId :: "hookEvent \<Rightarrow> string" where
  "eventId ev = snd (snd ev)"

text \<open>
  The host sending the events one after the other to the functions installed
  by \<open>_addInitHookProxyMethod\<close> of class \<open>k\<close>, up to the first call that throws.
\<close>

fun fireInitHooks :: "nat \<Rightarrow> hookEvent list \<Rightarrow> world \<Rightarrow> error option \<times> world" where
  "fireInitHooks k [] w = (None, w)"
| "fireInitHooks k ((methodName, opts, uuid) # rest) w =
     (case initHookProxy k methodName opts uuid w of
        (Some e, w') \<Rightarrow> (Some e, w')
      | (None, w') \<Rightarrow> fireInitHooks k rest w')"

text \<open>
  No view is, when its event arrives, associated with a known instance:
  \<open>_getComponentForRootView\<close> finds none for it.
\<close>

fun eachViewNew :: "nat \<Rightarrow> hookEvent list \<Rightarrow> world \<Rightarrow> bool" where
  "eachViewNew k [] w = True"
| "eachViewNew k ((methodName, opts, uuid) # rest) w =
     (getComponentForRootView w k (o_object opts) = None \<and>
      eachViewNew k rest (snd (initHookProxy k methodName opts uuid w)))"

definition allObservable :: "world \<Rightarrow> bool" where
  "allObservable w = (\<forall>r. isObservable (contexts w r))"

text \<open>
  The instances of class \<open>k\<close> are those created for the events \<open>evs\<close>, in
  order: each carries the identifier and the view of its event, and the
  binding context of that view carries the identifier as \<open>_componentId\<close>.
\<close>

definition registered :: "nat \<Rightarrow> world \<Rightarrow> hookEvent list \<Rightarrow> bool" where
  "registered k w evs =
     (length (instances w k) = length evs \<and>
      (\<forall>j < length evs.
          c_id (components w (instances w k ! j)) = Some (eventId (evs ! j)) \<and>
          c_view (components w (instances w k ! j)) = Some (eventView (evs ! j)) \<and>
          instances w k ! j < nextComponent w \<and>
          (\<exists>r. v_bindingContext (views w (eventView (evs ! j))) = Some r \<and>
               getComponentId w r = Str (eventId (evs ! j))) \<and>
          k \<in> set (v_unloadedListeners (views w (eventView (evs ! j))))))"

text \<open>
  A page, view 0, that is no component and whose observable is shared by its
  three children, views 1, 2 and 3; the children are roots of components of
  class 2.
\<close>

definition siblingsWorld :: world where
  "siblingsWorld = emptyWorld\<lparr>
      views := (views emptyWorld)(
         0 := blankView\<lparr>v_bindingContext := Some 0, v_page := Some 0\<rparr>,
         1 := blankView\<lparr>v_bindingContext := Some 0, v_parent := Some 0, v_page := Some 0\<rparr>,
         2 := blankView\<lparr>v_bindingContext := Some 0, v_parent := Some 0, v_page := Some 0\<rparr>,
         3 := blankView\<lparr>v_bindingContext := Some 0, v_parent := Some 0, v_page := Some 0\<rparr>),
      nextContext := 1\<rparr>"

text \<open>An event without modal context on the given view.\<close>

definition plainOptions :: "nat \<Rightarrow> options" where
  "plainOptions v = \<lparr>o_object = v, o_context = Undefined, o_closeCallback = Undefined\<rparr>"

definition siblingEvents :: "hookEvent list" where
  "siblingEvents =
     [(OnLoaded, plainOptions 1, ''a1''), (OnLoaded, plainOptions 2, ''b2''),
      (OnLoaded, plainOptions 3, ''c3'')]"

text \<open>
  Two views, 1 and 2, that were given one and the same observable, which is
  not the one of their parent.
\<close>

definition sharedWorld :: world where
  "sharedWorld = emptyWorld\<lparr>
      views := (views emptyWorld)(
         0 := blankView\<lparr>v_bindingContext := Some 0, v_page := Some 0\<rparr>,
         1 := blankView\<lparr>v_bindingContext := Some 1, v_parent := Some 0, v_page := Some 0\<rparr>,
         2 := blankView\<lparr>v_bindingContext := Some 1, v_parent := Some 0, v_page := Some 0\<rparr>),
      nextContext := 2\<rparr>"

definition sharedEvents :: "hookEvent list" where
  "sharedEvents = [(OnLoaded, plainOptions 1, ''a1''), (OnLoaded, plainOptions 2, ''b2'')]"

subsection \<open>Events of the host\<close>

text \<open>
  What the host can do to the exports of the component modules: call an
  initialization hook or another method of class \<open>k\<close>, and raise the
  \<open>unloaded\<close> event of a view or the \<open>loaded\<close> event of a page.
\<close>

datatype event =
    HookEvent nat hookname options string
  | MethodEvent nat string nat
  | UnloadedEvent nat
  | PageLoadedEvent nat

fun step :: "event \<Rightarrow> world \<Rightarrow> world" where
  "step (HookEvent k methodName opts uuid) w = snd (initHookProxy k methodName opts uuid w)"
| "step (MethodEvent k methodName view) w = snd (proxyMethod k methodName view w)"
| "step (UnloadedEvent view) w = fireUnloaded view w"
| "step (PageLoadedEvent page) w = snd (firePageLoaded page w)"

text \<open>
  The instance list, the singleton flags and the subscriptions to \<open>unloaded\<close>
  are the same in both states.
\<close>

definition sameRegistry :: "world \<Rightarrow> world \<Rightarrow> bool" where
  "sameRegistry w w' =
     (instances w' = instances w \<and> isSingleton w' = isSingleton w \<and>
      nextComponent w' = nextComponent w \<and>
      (\<forall>u. v_unloadedListeners (views w' u) = v_unloadedListeners (views w u)))"

text \<open>
  The state of a singleton class \<open>k\<close>: at most one instance, and no handler of
  its manager subscribed to any \<open>unloaded\<close> event.
\<close>

definition singletonInv :: "nat \<Rightarrow> world \<Rightarrow> bool" where
  "singletonInv k w =
     (isSingleton w k \<and> length (instances w k) \<le> 1 \<and>
      (\<forall>v. k \<notin> set (v_unloadedListeners (views w v))))"

text \<open>The world of the three siblings with every class a singleton.\<close>

definition singletonScene :: world where
  "singletonScene = siblingsWorld\<lparr>isSingleton := (\<lambda>k. True)\<rparr>"

definition singletonEvents :: "event list" where
  "singletonEvents =
     [MethodEvent 2 ''save'' 1,
      HookEvent 2 OnLoaded (plainOptions 1) ''a1'',
      UnloadedEvent 1,
      HookEvent 2 OnLoaded (plainOptions 2) ''b2'',
      PageLoadedEvent 0,
      UnloadedEvent 2]"

subsection \<open>Nested components\<close>

text \<open>
  A page, view 0, of class 1 with two children, views 1 and 2, that are roots
  of components of class 2; view 3, nested in view 2, is the root of a
  component of class 3. Every view has an observable of its own, and every
  class has its own \<open>onPageLoaded\<close> on its prototype: function object \<open>k\<close>
  for class \<open>k\<close>.
\<close>

definition nestedWorld :: world where
  "nestedWorld = emptyWorld\<lparr>
      views := (views emptyWorld)(
         0 := blankView\<lparr>v_bindingContext := Some 0, v_page := Some 0\<rparr>,
         1 := blankView\<lparr>v_bindingContext := Some 1, v_parent := Some 0, v_page := Some 0\<rparr>,
         2 := blankView\<lparr>v_bindingContext := Some 2, v_parent := Some 0, v_page := Some 0\<rparr>,
         3 := blankView\<lparr>v_bindingContext := Some 3, v_parent := Some 2, v_page := Some 0\<rparr>),
      nextContext := 4,
      hookFns := (\<lambda>f. \<lparr>f_body = ProtoHook f, f_wasCalled = False, f_returnValue = Undefined\<rparr>),
      nextHookFn := 4,
      protoHook := (\<lambda>k. k)\<rparr>"

text \<open>
  The host navigates to the page, loads the views from the inside out, and
  raises the \<open>loaded\<close> event of the page.
\<close>

definition nestedEvents :: "event list" where
  "nestedEvents =
     [HookEvent 1 OnNavigatingTo (plainOptions 0) ''uuid-p'',
      HookEvent 2 OnLoaded (plainOptions 1) ''uuid-c1'',
      HookEvent 3 OnLoaded (plainOptions 3) ''uuid-g'',
      HookEvent 2 OnLoaded (plainOptions 2) ''uuid-c2'',
      PageLoadedEvent 0]"

text \<open>
  A child, view 2, whose \<open>loaded\<close> hook runs before the one of its parent,
  view 1; the \<open>loaded\<close> event of the page, view 0, follows.
\<close>

definition insideOutEvents :: "event list" where
  "insideOutEvents =
     [HookEvent 3 OnLoaded (plainOptions 3) ''uuid-g'',
      HookEvent 2 OnLoaded (plainOptions 2) ''uuid-c2'']"

section \<open>Properties\<close>

subsection \<open>Reading and writing the binding context\<close>

lemma plain_get_field:
  "typeof (q ''get'') \<noteq> ''function'' \<Longrightarrow> getBindingContextProperty (Plain q a) name = q name"
  by (cases "q ''get''") simp_all

lemma plain_set_field:
  "typeof (q ''set'') \<noteq> ''function'' \<Longrightarrow> a q name v = Some q' \<Longrightarrow>
   setBindingContextProperty (Plain q a) name v = Some (Plain q' a)"
  by (cases "q ''set''") simp_all

text \<open>
  Claim C4, as amended. On a component whose view and binding context are
  set, \<open>set(x, v)\<close> followed by \<open>get(x)\<close> returns \<open>v\<close> when the binding context
  is an observable, and when it is a plain object that holds no function under
  \<open>set\<close>, on which the assignment of \<open>v\<close> to \<open>x\<close> stores the property, and
  that holds no function under \<open>get\<close> once \<open>v\<close> is written to \<open>x\<close>.
\<close>

theorem set_then_get_roundtrip:
  assumes "c_view (components w c) = Some vw"
    and "v_bindingContext (views w vw) = Some r"
    and "roundTripSafe (contexts w r) x v"
  shows "set_then_get w c x v = Inr v"
proof (cases "contexts w r")
  case (Observable store)
  with assms show ?thesis
    by (simp add: set_then_get_def component_set_def component_get_def
        validateBindingContext_def getBindingContext_def getView_def)
next
  case (Plain props assign)
  with assms have s: "typeof (props ''set'') \<noteq> ''function''"
    and a: "assign props x v = Some (props(x := v))"
    and g: "typeof ((props(x := v)) ''get'') \<noteq> ''function''" by simp_all
  have "setBindingContextProperty (Plain props assign) x v = Some (Plain (props(x := v)) assign)"
    using s a by (rule plain_set_field)
  moreover have "getBindingContextProperty (Plain (props(x := v)) assign) x = v"
    using plain_get_field [of "props(x := v)" assign x] g by simp
  ultimately show ?thesis using assms Plain
    by (simp add: set_then_get_def component_set_def component_get_def
        validateBindingContext_def getBindingContext_def getView_def)
qed

theorem set_then_get_roundtrip_witness:
  "set_then_get (attachedWorld (Observable (\<lambda>name. Undefined))) 0 ''x'' (Num 7) = Inr (Num 7)
   \<and> set_then_get (attachedWorld (Plain (\<lambda>name. Undefined) storesProperties)) 0 ''x'' (Str ''v'')
       = Inr (Str ''v'')"
  using set_then_get_roundtrip [of "attachedWorld (Observable (\<lambda>name. Undefined))" 0 0 0 "''x''" "Num 7"]
    set_then_get_roundtrip [of "attachedWorld (Plain (\<lambda>name. Undefined) storesProperties)" 0 0 0
      "''x''" "Str ''v''"]
  by (simp add: attachedWorld_def emptyWorld_def newComponent_def blankView_def storesProperties_def)

text \<open>
  Claim C4 as stated fails on a plain object for the name \<open>get\<close> and a
  function value: the write stores the function under \<open>get\<close>, the read then
  finds a function there and returns what that function returns. It fails as
  well on a frozen plain object, on which \<open>set\<close> throws.
\<close>

theorem set_then_get_counterexample:
  "set_then_get (attachedWorld (Plain constantUndefined storesProperties)) 0 ''get'' (Fun constantUndefined)
     = Inr Undefined
   \<and> Inr Undefined \<noteq> (Inr (Fun constantUndefined) :: error + jsval)
   \<and> set_then_get (attachedWorld (Plain constantUndefined frozenObject)) 0 ''x'' (Num 7)
       = Inl TypeError"
  by (simp add: set_then_get_def component_set_def component_get_def validateBindingContext_def
      getBindingContext_def getView_def attachedWorld_def emptyWorld_def newComponent_def
      blankView_def constantUndefined_def storesProperties_def frozenObject_def)

text \<open>
  Claim C5, as amended. \<open>get\<close> and \<open>set\<close> fail with the error of
  \<open>_validateBindingContext\<close> when the component has a view whose binding
  context is undefined; on a component that has no view yet they fail with the
  error of the getter \<open>view\<close>.
\<close>

theorem get_set_uninitialized:
  "(c_view (components w c) = None \<longrightarrow>
      component_get w c name = Inl NotInitializedError \<and>
      component_set w c name v = Inl NotInitializedError) \<and>
   (c_view (components w c) = Some vw \<and> v_bindingContext (views w vw) = None \<longrightarrow>
      component_get w c name = Inl UninitializedContextError \<and>
      component_set w c name v = Inl UninitializedContextError)"
  by (simp add: component_set_def component_get_def validateBindingContext_def
      getBindingContext_def getView_def)

theorem get_set_uninitialized_witness:
  "component_get emptyWorld 0 ''x'' = Inl NotInitializedError
   \<and> component_set emptyWorld 0 ''x'' (Num 1) = Inl NotInitializedError
   \<and> component_get (emptyWorld\<lparr>components := (components emptyWorld)(0 := (newComponent 0)\<lparr>c_view := Some 0\<rparr>)\<rparr>)
        0 ''x'' = Inl UninitializedContextError
   \<and> component_set (emptyWorld\<lparr>components := (components emptyWorld)(0 := (newComponent 0)\<lparr>c_view := Some 0\<rparr>)\<rparr>)
        0 ''x'' (Num 1) = Inl UninitializedContextError"
  using get_set_uninitialized [of emptyWorld 0 "''x''" "Num 1" 0]
    get_set_uninitialized [of "emptyWorld\<lparr>components := (components emptyWorld)(0 := (newComponent 0)\<lparr>c_view := Some 0\<rparr>)\<rparr>"
       0 "''x''" "Num 1" 0]
  by (simp add: emptyWorld_def newComponent_def blankView_def)

text \<open>
  Claim C5 as stated fails on an instance for which no hook has run and no
  view was assigned: the error is the one of the getter \<open>view\<close>.
\<close>

theorem get_uninitialized_counterexample:
  "component_get emptyWorld 0 ''x'' \<noteq> Inl UninitializedContextError
   \<and> component_set emptyWorld 0 ''x'' (Num 1) \<noteq> Inl UninitializedContextError"
  by (simp add: component_set_def component_get_def validateBindingContext_def
      getBindingContext_def getView_def emptyWorld_def newComponent_def)

subsection \<open>The private binding context\<close>

text \<open>
  Claim C2 fails on the code. The claim is what the comment of
  \<open>_setNewBindingContextIfNeeded\<close> promises: a new binding context "if its
  bindingContext is undefined or has been inherited from its parent". The
  code only compares the view's binding context with the one of the parent.
  For view 0 below, whose binding context is undefined while its parent has
  one, nothing is assigned, and the initialization hook that the host calls
  through the manager then throws the error of \<open>_validateBindingContext\<close> at
  its first \<open>set\<close>.
\<close>

theorem setNewBindingContext_orphan:
  "v_bindingContext (views orphanWorld 0) = None
   \<and> parentBindingContext orphanWorld 0 = Some 0
   \<and> setNewBindingContextIfNeeded 0 orphanWorld = Inr orphanWorld
   \<and> fst (initHookProxy 0 OnLoaded (plainOptions 0) ''uuid'' orphanWorld)
       = Some UninitializedContextError"
  by (simp add: setNewBindingContextIfNeeded_def getView_def orphanWorld_def emptyWorld_def
      newComponent_def blankView_def parentBindingContext_def plainOptions_def
      initHookProxy_def resolveInitTarget_def getComponentForRootView_def addNewComponent_def
      init_def bindXmlParams_def assignView_def getNamesOfPropertiesPassedAsXmlAttributes_def
      xmlAttributeNames_def setNavigationContextProperties_def hookUpPageLoadedEvent_def
      subscribeLoaded_def writeMarkers_def component_set_def validateBindingContext_def
      getBindingContext_def idOf_def Let_def)

text \<open>
  What the code does: \<open>_setNewBindingContextIfNeeded\<close> gives the view a new
  observable, which no view referred to before, exactly when the view's
  binding context is identical to the binding context of its parent, the
  latter being undefined for a view without parent; otherwise nothing changes.
\<close>

lemma setNewBindingContext_iff:
  assumes "c_view (components w c) = Some v" and "heapWellFormed w"
  shows "\<exists>w'. setNewBindingContextIfNeeded c w = Inr w' \<and>
     (v_bindingContext (views w v) = parentBindingContext w v \<longrightarrow>
        v_bindingContext (views w' v) = Some (nextContext w) \<and>
        contexts w' (nextContext w) = Observable (\<lambda>name. Undefined) \<and>
        (\<forall>u. u \<noteq> v \<longrightarrow> v_bindingContext (views w' u) \<noteq> Some (nextContext w)) \<and>
        v_bindingContext (views w v) \<noteq> Some (nextContext w)) \<and>
     (v_bindingContext (views w v) \<noteq> parentBindingContext w v \<longrightarrow> w' = w)"
proof -
  have fresh: "v_bindingContext (views w u) \<noteq> Some (nextContext w)" for u
    using assms(2) by (auto simp add: heapWellFormed_def)
  show ?thesis
    using assms(1) fresh
    by (simp add: setNewBindingContextIfNeeded_def getView_def newObservable_def
        assignBindingContext_def) metis
qed

lemma heapWellFormed_inheritingWorld: "heapWellFormed inheritingWorld"
  by (simp add: heapWellFormed_def inheritingWorld_def emptyWorld_def blankView_def)

lemma setNewBindingContext_inheriting:
  "\<exists>w'. setNewBindingContextIfNeeded 0 inheritingWorld = Inr w' \<and>
         v_bindingContext (views w' 0) = Some 1 \<and>
         v_bindingContext (views w' 1) = Some 0"
proof -
  have v: "c_view (components inheritingWorld 0) = Some 0"
    by (simp add: inheritingWorld_def emptyWorld_def newComponent_def)
  have eq: "v_bindingContext (views inheritingWorld 0) = parentBindingContext inheritingWorld 0"
    by (simp add: inheritingWorld_def emptyWorld_def blankView_def parentBindingContext_def)
  have n: "nextContext inheritingWorld = 1"
    by (simp add: inheritingWorld_def emptyWorld_def)
  from setNewBindingContext_iff [OF v heapWellFormed_inheritingWorld] eq n
  obtain w' where w': "setNewBindingContextIfNeeded 0 inheritingWorld = Inr w'"
    "v_bindingContext (views w' 0) = Some 1"
    by auto
  have "v_bindingContext (views w' 1) = Some 0"
    using w'(1)
    by (auto simp add: setNewBindingContextIfNeeded_def getView_def newObservable_def
      assignBindingContext_def inheritingWorld_def emptyWorld_def newComponent_def blankView_def
      parentBindingContext_def)
  with w' show ?thesis by blast
qed

text \<open>
  Where the host lets a view without binding context of its own inherit the
  one of its parent, the condition of the code and the condition "undefined or
  identical to the parent's" agree.
\<close>

lemma inherited_condition:
  assumes "v_bindingContext (views w v) = None \<longrightarrow> parentBindingContext w v = None"
  shows "(v_bindingContext (views w v) = parentBindingContext w v) =
         (v_bindingContext (views w v) = None \<or>
          (\<exists>p. v_parent (views w v) = Some p \<and>
               v_bindingContext (views w v) = v_bindingContext (views w p)))"
  using assms by (auto simp add: parentBindingContext_def split: option.splits)

subsection \<open>Methods of a singleton before its instance exists\<close>

text \<open>
  Claim C8, as amended. When a method other than an initialization hook is
  called for a singleton class that has no instance, the function installed by
  \<open>_addProxyMethod\<close> writes an error line to the console and returns
  \<open>undefined\<close>; it throws nothing and calls no method.
\<close>

theorem singleton_method_before_instance:
  assumes "isSingleton w k" and "instances w k = []"
  shows "proxyMethod k methodName view w =
     (Inr ReturnedUndefined, w\<lparr>consoleLog := consoleLog w @ [SingletonNotInstantiated methodName]\<rparr>)"
  using assms by (simp add: proxyMethod_def)

theorem singleton_method_before_instance_witness:
  "isSingleton singletonWorld 0 \<and> instances singletonWorld 0 = [] \<and>
   fst (proxyMethod 0 ''save'' 0 singletonWorld) = Inr ReturnedUndefined \<and>
   consoleLog (snd (proxyMethod 0 ''save'' 0 singletonWorld)) = [SingletonNotInstantiated ''save'']"
  using singleton_method_before_instance [of singletonWorld 0 "''save''" 0]
  by (simp add: singletonWorld_def emptyWorld_def)

text \<open>Claim C8 as stated fails: the call returns, it does not raise.\<close>

theorem singleton_method_counterexample:
  "fst (proxyMethod 0 ''save'' 0 singletonWorld) = Inr ReturnedUndefined \<and>
   fst (proxyMethod 0 ''save'' 0 singletonWorld) \<noteq> Inl AmbiguousInstanceError"
  by (simp add: proxyMethod_def singletonWorld_def emptyWorld_def)

subsection \<open>Navigation entries\<close>

lemma lookupProp_update:
  "lookupProp (AList.update k v kvs) name = (if name = k then v else lookupProp kvs name)"
  by (simp add: lookupProp_def update_conv')

lemma navigate_Rec:
  "navigate (Rec kvs) w =
     (case lookupProp kvs ''component'' of
        Str component \<Rightarrow>
          (None, w\<lparr>navigated := navigated w @
             [Rec (AList.update ''moduleName'' (Str (''components/'' @ component @ ''/'' @ component)) kvs)]\<rparr>)
      | _ \<Rightarrow> (None, w\<lparr>navigated := navigated w @ [Rec kvs]\<rparr>))"
  by (simp add: navigate_def hostNavigate_def split: jsval.splits)

lemma navigate_Locked:
  "navigate (Locked kvs locked) w =
     (case lookupProp kvs ''component'' of
        Str component \<Rightarrow>
          if locked ''moduleName'' then (Some TypeError, w)
          else (None, w\<lparr>navigated := navigated w @
             [Locked (AList.update ''moduleName'' (Str (''components/'' @ component @ ''/'' @ component)) kvs)
                locked]\<rparr>)
      | _ \<Rightarrow> (None, w\<lparr>navigated := navigated w @ [Locked kvs locked]\<rparr>))"
  by (simp add: navigate_def hostNavigate_def split: jsval.splits)

lemma not_string_case:
  "typeof x \<noteq> ''string'' \<Longrightarrow> (case x of Str s \<Rightarrow> a s | _ \<Rightarrow> b) = b"
  by (cases x) simp_all

text \<open>
  What \<open>navigate\<close> does with an object. When its \<open>component\<close> is the
  string \<open>name\<close> and strict code may assign to its \<open>moduleName\<close>, the host
  receives the entry with \<open>moduleName\<close> set to \<open>components/name/name\<close> and
  every other property as it was. When its \<open>component\<close> is a string and
  \<open>moduleName\<close> may not be assigned, \<open>navigate\<close> throws a \<open>TypeError\<close> and
  the host is not called. An entry whose \<open>component\<close> is not a string is
  handed over unchanged.
\<close>

lemma navigate_component_entry:
  assumes "typeof arg = ''object''" and "arg \<noteq> Null"
  shows "(entryProp arg ''component'' = Str name \<and> \<not> lockedName arg ''moduleName'' \<longrightarrow>
      (\<exists>arg'. navigate arg w = (None, w\<lparr>navigated := navigated w @ [arg']\<rparr>) \<and>
         entryProp arg' ''moduleName'' = Str (''components/'' @ name @ ''/'' @ name) \<and>
         (\<forall>key. key \<noteq> ''moduleName'' \<longrightarrow> entryProp arg' key = entryProp arg key) \<and>
         (\<forall>key. lockedName arg' key = lockedName arg key))) \<and>
   (entryProp arg ''component'' = Str name \<and> lockedName arg ''moduleName'' \<longrightarrow>
      navigate arg w = (Some TypeError, w)) \<and>
   (typeof (entryProp arg ''component'') \<noteq> ''string'' \<longrightarrow>
      navigate arg w = (None, w\<lparr>navigated := navigated w @ [arg]\<rparr>))"
proof (cases arg)
  case (Rec kvs)
  let ?e = "Rec (AList.update ''moduleName'' (Str (''components/'' @ name @ ''/'' @ name)) kvs)"
  have rewritten: "lookupProp kvs ''component'' = Str name \<Longrightarrow>
      navigate arg w = (None, w\<lparr>navigated := navigated w @ [?e]\<rparr>)"
    using Rec by (simp add: navigate_Rec)
  have props: "entryProp ?e ''moduleName'' = Str (''components/'' @ name @ ''/'' @ name)"
    "\<forall>key. key \<noteq> ''moduleName'' \<longrightarrow> entryProp ?e key = entryProp arg key"
    "\<forall>key. lockedName ?e key = lockedName arg key"
    using Rec by (simp_all add: lookupProp_update)
  have first: "entryProp arg ''component'' = Str name \<and> \<not> lockedName arg ''moduleName'' \<longrightarrow>
      (\<exists>arg'. navigate arg w = (None, w\<lparr>navigated := navigated w @ [arg']\<rparr>) \<and>
         entryProp arg' ''moduleName'' = Str (''components/'' @ name @ ''/'' @ name) \<and>
         (\<forall>key. key \<noteq> ''moduleName'' \<longrightarrow> entryProp arg' key = entryProp arg key) \<and>
         (\<forall>key. lockedName arg' key = lockedName arg key))"
  proof
    assume "entryProp arg ''component'' = Str name \<and> \<not> lockedName arg ''moduleName''"
    then have "lookupProp kvs ''component'' = Str name" using Rec by simp
    from rewritten [OF this] props show "\<exists>arg'. navigate arg w = (None, w\<lparr>navigated := navigated w @ [arg']\<rparr>) \<and>
         entryProp arg' ''moduleName'' = Str (''components/'' @ name @ ''/'' @ name) \<and>
         (\<forall>key. key \<noteq> ''moduleName'' \<longrightarrow> entryProp arg' key = entryProp arg key) \<and>
         (\<forall>key. lockedName arg' key = lockedName arg key)"
      by (intro exI [of _ ?e] conjI)
  qed
  have second: "entryProp arg ''component'' = Str name \<and> lockedName arg ''moduleName'' \<longrightarrow>
      navigate arg w = (Some TypeError, w)"
    using Rec by simp
  have third: "typeof (entryProp arg ''component'') \<noteq> ''string'' \<longrightarrow>
      navigate arg w = (None, w\<lparr>navigated := navigated w @ [arg]\<rparr>)"
    using Rec by (simp add: navigate_Rec not_string_case)
  from first second third show ?thesis by (intro conjI)
next
  case (Locked kvs locked)
  let ?e = "Locked (AList.update ''moduleName'' (Str (''components/'' @ name @ ''/'' @ name)) kvs) locked"
  have rewritten: "lookupProp kvs ''component'' = Str name \<Longrightarrow> \<not> locked ''moduleName'' \<Longrightarrow>
      navigate arg w = (None, w\<lparr>navigated := navigated w @ [?e]\<rparr>)"
    using Locked by (simp add: navigate_Locked)
  have props: "entryProp ?e ''moduleName'' = Str (''components/'' @ name @ ''/'' @ name)"
    "\<forall>key. key \<noteq> ''moduleName'' \<longrightarrow> entryProp ?e key = entryProp arg key"
    "\<forall>key. lockedName ?e key = lockedName arg key"
    using Locked by (simp_all add: lookupProp_update)
  have first: "entryProp arg ''component'' = Str name \<and> \<not> lockedName arg ''moduleName'' \<longrightarrow>
      (\<exists>arg'. navigate arg w = (None, w\<lparr>navigated := navigated w @ [arg']\<rparr>) \<and>
         entryProp arg' ''moduleName'' = Str (''components/'' @ name @ ''/'' @ name) \<and>
         (\<forall>key. key \<noteq> ''moduleName'' \<longrightarrow> entryProp arg' key = entryProp arg key) \<and>
         (\<forall>key. lockedName arg' key = lockedName arg key))"
  proof
    assume "entryProp arg ''component'' = Str name \<and> \<not> lockedName arg ''moduleName''"
    then have "lookupProp kvs ''component'' = Str name" "\<not> locked ''moduleName''"
      using Locked by simp_all
    from rewritten [OF this] props show "\<exists>arg'. navigate arg w = (None, w\<lparr>navigated := navigated w @ [arg']\<rparr>) \<and>
         entryProp arg' ''moduleName'' = Str (''components/'' @ name @ ''/'' @ name) \<and>
         (\<forall>key. key \<noteq> ''moduleName'' \<longrightarrow> entryProp arg' key = entryProp arg key) \<and>
         (\<forall>key. lockedName arg' key = lockedName arg key)"
      by (intro exI [of _ ?e] conjI)
  qed
  have second: "entryProp arg ''component'' = Str name \<and> lockedName arg ''moduleName'' \<longrightarrow>
      navigate arg w = (Some TypeError, w)"
    using Locked by (simp add: navigate_Locked)
  have third: "typeof (entryProp arg ''component'') \<noteq> ''string'' \<longrightarrow>
      navigate arg w = (None, w\<lparr>navigated := navigated w @ [arg]\<rparr>)"
    using Locked by (simp add: navigate_Locked not_string_case)
  from first second third show ?thesis by (intro conjI)
next
  case (Comp c)
  then show ?thesis by (simp add: navigate_def hostNavigate_def)
next
  case (Promise p)
  then show ?thesis by (simp add: navigate_def hostNavigate_def)
qed (use assms in simp_all)

lemma navigate_examples:
  "(\<exists>arg'. navigated (snd (navigate (Rec [(''component'', Str ''foo'')]) emptyWorld)) = [arg'] \<and>
       entryProp arg' ''moduleName'' = Str ''components/foo/foo'' \<and>
       entryProp arg' ''component'' = Str ''foo'') \<and>
   navigated (snd (navigate (Rec [(''moduleName'', Str ''bar'')]) emptyWorld))
     = [Rec [(''moduleName'', Str ''bar'')]] \<and>
   navigate (Locked [(''component'', Str ''foo'')] (\<lambda>key. key = ''moduleName'')) emptyWorld
     = (Some TypeError, emptyWorld)"
proof -
  let ?foo = "Rec [(''component'', Str ''foo'')]"
  let ?bar = "Rec [(''moduleName'', Str ''bar'')]"
  let ?ro = "Locked [(''component'', Str ''foo'')] (\<lambda>key. key = ''moduleName'')"
  have a: "entryProp ?foo ''component'' = Str ''foo''" "\<not> lockedName ?foo ''moduleName''"
    by (simp_all add: lookupProp_def)
  have b: "typeof (entryProp ?bar ''component'') \<noteq> ''string''"
    by (simp add: lookupProp_def)
  have c: "entryProp ?ro ''component'' = Str ''foo''" "lockedName ?ro ''moduleName''"
    by (simp_all add: lookupProp_def)
  have n: "navigated emptyWorld = []"
    by (simp add: emptyWorld_def)
  from navigate_component_entry [of ?foo "''foo''" emptyWorld] a
  obtain arg' where e: "navigate ?foo emptyWorld
        = (None, emptyWorld\<lparr>navigated := navigated emptyWorld @ [arg']\<rparr>)"
      "entryProp arg' ''moduleName'' = Str (''components/'' @ ''foo'' @ ''/'' @ ''foo'')"
      "\<forall>key. key \<noteq> ''moduleName'' \<longrightarrow> entryProp arg' key = entryProp ?foo key"
    by auto
  have "entryProp arg' ''component'' = Str ''foo''"
    using e(3) a(1) by simp
  then have first: "\<exists>arg'. navigated (snd (navigate ?foo emptyWorld)) = [arg'] \<and>
       entryProp arg' ''moduleName'' = Str ''components/foo/foo'' \<and>
       entryProp arg' ''component'' = Str ''foo''"
    using e(1,2) n by auto
  have "navigate ?bar emptyWorld = (None, emptyWorld\<lparr>navigated := navigated emptyWorld @ [?bar]\<rparr>)"
    using navigate_component_entry [of ?bar "''x''" emptyWorld] b by simp
  then have second: "navigated (snd (navigate ?bar emptyWorld)) = [?bar]"
    using n by simp
  have third: "navigate ?ro emptyWorld = (Some TypeError, emptyWorld)"
    using navigate_component_entry [of ?ro "''foo''" emptyWorld] c by simp
  from first second third show ?thesis by blast
qed

text \<open>
  Claim C9 fails on the code. Calling \<open>navigate({ component: 'foo' })\<close> "is
  automatically converted to" a call of the host with \<open>moduleName\<close>
  \<open>components/foo/foo\<close>, as the comment of \<open>navigate\<close> says. The code does
  the conversion by assigning to the entry it was given. For the frozen entry
  below, an object with the string \<open>foo\<close> as its \<open>component\<close>, the
  assignment throws in strict code: \<open>navigate\<close> fails with a \<open>TypeError\<close>
  and the host is never called.
\<close>

theorem navigate_frozen_entry:
  "typeof frozenEntry = ''object'' \<and> entryProp frozenEntry ''component'' = Str ''foo'' \<and>
   fst (navigate frozenEntry emptyWorld) = Some TypeError \<and>
   navigated (snd (navigate frozenEntry emptyWorld)) = []"
  by (simp add: navigate_def frozenEntry_def lookupProp_def emptyWorld_def)

subsection \<open>Modal contexts\<close>

lemma setAll_components: "components (snd (setAll c kvs w)) = components w"
proof (induction kvs arbitrary: w)
  case Nil then show ?case by simp
next
  case (Cons kv kvs)
  obtain key v where kv: "kv = (key, v)" by (cases kv)
  show ?case
  proof (cases "component_set w c key v")
    case (Inl e) then show ?thesis using kv by simp
  next
    case (Inr w')
    then have "components w' = components w"
      by (auto simp add: component_set_def split: sum.splits option.splits)
    with Inr Cons.IH [of w'] kv show ?thesis by simp
  qed
qed

lemma setNavigationContextProperties_components:
  "components (snd (setNavigationContextProperties c ctx w)) = components w"
  by (simp add: setNavigationContextProperties_def setAll_components)

text \<open>
  Claim C10. Once \<open>init\<close> has returned, \<open>onShownModally\<close> stores
  \<open>options.context\<close>, whatever its type, where the getter \<open>modalContext\<close>
  reads it. A context whose \<open>typeof\<close> is not \<open>object\<close>, and the context
  \<open>null\<close>, leave the binding context untouched and raise no error; the
  properties of an object are written with \<open>set\<close>, one after the other.
\<close>

theorem onShownModally_context:
  assumes "init c (o_object opts) w = (None, w1)"
  shows "modalContext (snd (onShownModally c opts w)) c = o_context opts \<and>
     (typeof (o_context opts) \<noteq> ''object'' \<or> o_context opts = Null \<longrightarrow>
        onShownModally c opts w = (None, storeModal c opts w1)) \<and>
     (\<forall>kvs. o_context opts = Rec kvs \<longrightarrow>
        onShownModally c opts w = setAll c kvs (storeModal c opts w1))"
proof -
  have "modalContext (snd (onShownModally c opts w)) c = o_context opts"
    using assms
    by (simp add: onShownModally_def modalContext_def setNavigationContextProperties_components Let_def)
       (simp add: storeModal_def)
  moreover have "typeof (o_context opts) \<noteq> ''object'' \<or> o_context opts = Null \<longrightarrow>
        onShownModally c opts w = (None, storeModal c opts w1)"
    using assms
    by (auto simp add: onShownModally_def setNavigationContextProperties_def Let_def storeModal_def)
  moreover have "\<forall>kvs. o_context opts = Rec kvs \<longrightarrow>
        onShownModally c opts w = setAll c kvs (storeModal c opts w1)"
    using assms
    by (auto simp add: onShownModally_def setNavigationContextProperties_def Let_def storeModal_def)
  ultimately show ?thesis by blast
qed

lemma init_modalWorld: "fst (init 0 0 modalWorld) = None"
  by (simp add: init_def bindXmlParams_def assignView_def getNamesOfPropertiesPassedAsXmlAttributes_def
      xmlAttributeNames_def getView_def setNewBindingContextIfNeeded_def parentBindingContext_def
      setNavigationContextProperties_def hookUpPageLoadedEvent_def subscribeLoaded_def
      modalWorld_def emptyWorld_def blankView_def newComponent_def Let_def)

theorem onShownModally_context_witness:
  "fst (init 0 (o_object modalOptions) modalWorld) = None \<and>
   typeof (o_context modalOptions) \<noteq> ''object'' \<and>
   modalContext (snd (onShownModally 0 modalOptions modalWorld)) 0 = Str ''hello'' \<and>
   onShownModally 0 modalOptions modalWorld
     = (None, storeModal 0 modalOptions (snd (init 0 (o_object modalOptions) modalWorld)))"
proof -
  have i: "fst (init 0 (o_object modalOptions) modalWorld) = None"
    using init_modalWorld by (simp add: modalOptions_def)
  then have "init 0 (o_object modalOptions) modalWorld
      = (None, snd (init 0 (o_object modalOptions) modalWorld))"
    by (simp add: prod_eq_iff)
  from onShownModally_context [OF this]
  have a: "modalContext (snd (onShownModally 0 modalOptions modalWorld)) 0 = o_context modalOptions"
    and b: "typeof (o_context modalOptions) \<noteq> ''object'' \<or> o_context modalOptions = Null \<longrightarrow>
        onShownModally 0 modalOptions modalWorld
          = (None, storeModal 0 modalOptions (snd (init 0 (o_object modalOptions) modalWorld)))"
    by blast+
  have c: "o_context modalOptions = Str ''hello''"
    by (simp add: modalOptions_def)
  then have t: "typeof (o_context modalOptions) \<noteq> ''object''"
    by simp
  from a b c t i show ?thesis by simp
qed

subsection \<open>Attributes passed in the template\<close>

lemma collectXmlParams_map_of:
  "map_of (collectXmlParams w c v names acc) n =
     (if n \<in> set names then Some (resolveXmlParam w c v n) else map_of acc n)"
  by (induction names arbitrary: acc) (simp_all add: update_conv')

lemma collectXmlParams_distinct:
  "distinct (map fst acc) \<Longrightarrow> distinct (map fst (collectXmlParams w c v names acc))"
  by (induction names arbitrary: acc) (simp_all add: distinct_update)

lemma collectXmlParams_keys:
  "set (map fst (collectXmlParams w c v names [])) = set names"
proof -
  have "dom (map_of (collectXmlParams w c v names [])) = set names"
    by (auto simp add: collectXmlParams_map_of dom_def)
  then show ?thesis by (simp add: dom_map_of_conv_image_fst)
qed

lemma str_includes_iff: "str_includes s sub = (\<exists>pre post. s = pre @ sub @ post)"
proof (induction s)
  case Nil
  show ?case by auto
next
  case (Cons c cs)
  show ?case
  proof
    assume "str_includes (c # cs) sub"
    then consider "take (length sub) (c # cs) = sub" | "str_includes cs sub" by auto
    then show "\<exists>pre post. c # cs = pre @ sub @ post"
    proof cases
      case 1
      then have "c # cs = [] @ sub @ drop (length sub) (c # cs)"
        by (metis append_Nil append_take_drop_id)
      then show ?thesis by blast
    next
      case 2
      with Cons.IH obtain pre post where "cs = pre @ sub @ post" by blast
      then have "c # cs = (c # pre) @ sub @ post" by simp
      then show ?thesis by blast
    qed
  next
    assume "\<exists>pre post. c # cs = pre @ sub @ post"
    then obtain pre post where e: "c # cs = pre @ sub @ post" by blast
    show "str_includes (c # cs) sub"
    proof (cases pre)
      case Nil
      with e have "take (length sub) (c # cs) = sub" by simp
      then show ?thesis by simp
    next
      case longer: (Cons x pre')
      with e have "cs = pre' @ sub @ post" by simp
      with Cons.IH have "str_includes cs sub" by blast
      then show ?thesis by simp
    qed
  qed
qed

lemma notUnderscored_iff: "notUnderscored s = (\<forall>rest. s \<noteq> CHR ''_'' # rest)"
  by (cases s) auto

text \<open>
  The names that \<open>_getNamesOfPropertiesPassedAsXmlAttributes\<close> picks are the
  attributes of the template as described above.
\<close>

lemma passedAsAttribute_names:
  "passedAsAttribute w v name = (name \<in> set (xmlAttributeNames w v))"
  by (auto simp add: passedAsAttribute_def xmlAttributeNames_def shouldIgnoreKey_def
      str_includes_iff notUnderscored_iff)

lemma readsEntries_get:
  assumes "readsEntries ctx"
  shows "getBindingContextProperty ctx name = contextValue ctx name"
proof (cases ctx)
  case (Observable store)
  then show ?thesis by simp
next
  case (Plain props assign)
  with assms have "typeof (props ''get'') \<noteq> ''function''" by simp
  then have "getBindingContextProperty (Plain props assign) name = props name"
    by (rule plain_get_field)
  with Plain show ?thesis by simp
qed

lemma keepsWrites_reads: "keepsWrites ctx names \<Longrightarrow> readsEntries ctx"
  by (cases ctx) simp_all

lemma contextOfParent_eq: "contextOfParent w v = parentBindingContext w v"
  by (simp add: contextOfParent_def parentBindingContext_def)

lemma keepsWrites_set:
  assumes "keepsWrites ctx names" and "k \<in> set names"
  shows "\<exists>ctx'. setBindingContextProperty ctx k x = Some ctx' \<and> keepsWrites ctx' names \<and>
     (\<forall>n. getBindingContextProperty ctx' n
          = (if n = k then x else getBindingContextProperty ctx n))"
proof (cases ctx)
  case (Observable store)
  then show ?thesis by simp
next
  case (Plain props assign)
  with assms have g: "typeof (props ''get'') \<noteq> ''function''"
    and s: "typeof (props ''set'') \<noteq> ''function''"
    and k: "k \<noteq> ''get''" "k \<noteq> ''set''"
    and n: "''get'' \<notin> set names" "''set'' \<notin> set names"
    and st: "\<forall>q name x. name \<in> set names \<longrightarrow> assign q name x = Some (q(name := x))"
    by auto
  have a: "assign props k x = Some (props(k := x))"
    using st assms(2) by simp
  have w: "setBindingContextProperty (Plain props assign) k x = Some (Plain (props(k := x)) assign)"
    using s a by (rule plain_set_field)
  have g': "typeof ((props(k := x)) ''get'') \<noteq> ''function''"
    using g k by simp
  have s': "typeof ((props(k := x)) ''set'') \<noteq> ''function''"
    using s k by simp
  have kw: "keepsWrites (Plain (props(k := x)) assign) names"
    using g' s' n st by simp
  have "\<forall>n. getBindingContextProperty (Plain (props(k := x)) assign) n
          = (if n = k then x else getBindingContextProperty (Plain props assign) n)"
    using plain_get_field [of "props(k := x)" assign] plain_get_field [of props assign] g g'
    by simp
  with Plain w kw show ?thesis by simp
qed

lemma setAll_store:
  assumes "c_view (components w c) = Some v"
    and "v_bindingContext (views w v) = Some r"
    and "keepsWrites (contexts w r) names"
    and "set (map fst kvs) \<subseteq> set names"
    and "distinct (map fst kvs)"
  shows "\<exists>w'. setAll c kvs w = (None, w') \<and>
     c_view (components w' c) = Some v \<and> v_bindingContext (views w' v) = Some r \<and>
     (\<forall>n. getBindingContextProperty (contexts w' r) n
          = (case map_of kvs n of Some x \<Rightarrow> x | None \<Rightarrow> getBindingContextProperty (contexts w r) n))"
  using assms
proof (induction kvs arbitrary: w)
  case Nil
  then show ?case by simp
next
  case (Cons kv kvs)
  obtain k x where kv: "kv = (k, x)" by (cases kv)
  have kn: "k \<in> set names" using Cons.prems(4) kv by simp
  from keepsWrites_set [OF Cons.prems(3) kn, of x]
  obtain ctx' where written: "setBindingContextProperty (contexts w r) k x = Some ctx'"
    and kw': "keepsWrites ctx' names"
    and rd': "\<forall>n. getBindingContextProperty ctx' n
          = (if n = k then x else getBindingContextProperty (contexts w r) n)"
    by blast
  let ?w1 = "w\<lparr>contexts := (contexts w)(r := ctx')\<rparr>"
  have step: "component_set w c k x = Inr ?w1"
    using Cons.prems(1,2) written
    by (simp add: component_set_def validateBindingContext_def getBindingContext_def getView_def)
  have kw: "keepsWrites (contexts ?w1 r) names"
    using kw' by simp
  have rd: "\<forall>n. getBindingContextProperty (contexts ?w1 r) n
          = (if n = k then x else getBindingContextProperty (contexts w r) n)"
    using rd' by simp
  have "\<exists>w'. setAll c kvs ?w1 = (None, w') \<and>
     c_view (components w' c) = Some v \<and> v_bindingContext (views w' v) = Some r \<and>
     (\<forall>n. getBindingContextProperty (contexts w' r) n
          = (case map_of kvs n of Some x \<Rightarrow> x | None \<Rightarrow> getBindingContextProperty (contexts ?w1 r) n))"
    using Cons.prems(1,2,4,5) kw kv by (intro Cons.IH) simp_all
  then obtain w' where w': "setAll c kvs ?w1 = (None, w')"
     "c_view (components w' c) = Some v" "v_bindingContext (views w' v) = Some r"
     "\<forall>n. getBindingContextProperty (contexts w' r) n
          = (case map_of kvs n of Some x \<Rightarrow> x | None \<Rightarrow> getBindingContextProperty (contexts ?w1 r) n)"
    by blast
  have nk: "map_of kvs k = None"
    using Cons.prems(5) kv by (simp add: map_of_eq_None_iff)
  have "\<forall>n. getBindingContextProperty (contexts w' r) n
          = (case map_of (kv # kvs) n of Some x \<Rightarrow> x | None \<Rightarrow> getBindingContextProperty (contexts w r) n)"
    using w'(4) rd nk kv by (auto split: option.splits)
  with w'(1,2,3) step kv show ?case by simp
qed

lemma resolveXmlParam_spec:
  assumes "\<forall>r. v_bindingContext (views w v) = Some r \<longrightarrow> readsEntries (contexts w r)"
    and "\<forall>r. contextOfParent w v = Some r \<longrightarrow> readsEntries (contexts w r)"
  shows "resolveXmlParam (assignView c v w) c v name = firstTruthy w v name"
proof -
  have own: "valueFromOriginalBindingContext (assignView c v w) c name = ownValue w v name"
    using assms(1)
    by (simp add: valueFromOriginalBindingContext_def component_get_def validateBindingContext_def
        getBindingContext_def getView_def assignView_def ownValue_def readsEntries_get
        split: option.splits)
  have par: "valueFromParentBindingContext (assignView c v w) v name = parentValue w v name"
    using assms(2)
    by (simp add: valueFromParentBindingContext_def parentValue_def contextOfParent_def
        assignView_def readsEntries_get split: option.splits)
  have lit: "valueFromView (assignView c v w) v name = literalValue w v name"
    by (simp add: valueFromView_def literalValue_def lookupProp_def assignView_def
        split: option.splits)
  show ?thesis
    by (simp add: resolveXmlParam_def firstTruthy_def js_or_def own par lit)
qed

lemma setAll_undefined_context:
  assumes "c_view (components w c) = Some v" and "v_bindingContext (views w v) = None"
    and "kvs \<noteq> []"
  shows "fst (setAll c kvs w) \<noteq> None"
proof (cases kvs)
  case Nil
  with assms show ?thesis by simp
next
  case (Cons kv rest)
  obtain k x where "kv = (k, x)" by (cases kv)
  with Cons assms show ?thesis
    by (simp add: component_set_def validateBindingContext_def getBindingContext_def getView_def)
qed

text \<open>
  What the binding does. Let the binding of the attributes complete. For
  every name the view carries as an attribute of the template (an own
  property that a new view of the class leaves undefined, without leading
  underscore, not \<open>exports\<close> and not containing \<open>xmlns\<close>), reading the name
  from the component then gives the first truthy value among the one the
  view's own binding context held, the one the parent view's binding context
  holds and the literal on the view, and the literal when neither of the first
  two is truthy. The binding contexts are taken as the key-value stores of
  the specification: the one of the parent reads its entries, and the one of
  the view, where it is kept, takes the writes as entries (\<open>keepsWrites\<close>); a
  newly assigned one always does.
\<close>

lemma xml_params_precedence:
  assumes ok: "bindXmlParams c v w = (None, w')"
    and name: "passedAsAttribute w v name"
    and store: "\<forall>r. v_bindingContext (views w v) = Some r \<longrightarrow> contextOfParent w v \<noteq> Some r \<longrightarrow>
                  keepsWrites (contexts w r) (xmlAttributeNames w v)"
    and parent: "\<forall>r. contextOfParent w v = Some r \<longrightarrow> readsEntries (contexts w r)"
  shows "component_get w' c name = Inr (firstTruthy w v name)"
proof -
  let ?w1 = "assignView c v w"
  let ?names = "xmlAttributeNames w v"
  let ?xml = "collectXmlParams ?w1 c v ?names []"
  have listed: "name \<in> set ?names"
    using name by (simp add: passedAsAttribute_names)
  have own: "\<forall>r. v_bindingContext (views w v) = Some r \<longrightarrow> readsEntries (contexts w r)"
    using store parent keepsWrites_reads by blast
  have view1: "c_view (components ?w1 c) = Some v"
    by (simp add: assignView_def)
  have names1: "xmlAttributeNames ?w1 v = ?names"
    by (simp add: xmlAttributeNames_def assignView_def)
  have keys: "set (map fst ?xml) \<subseteq> set ?names"
    using collectXmlParams_keys [of ?w1 c v ?names] by simp
  have dist: "distinct (map fst ?xml)"
    by (rule collectXmlParams_distinct) simp
  have nonempty: "?xml \<noteq> []"
    using listed collectXmlParams_keys [of ?w1 c v ?names] by auto
  have resolved: "map_of ?xml name = Some (firstTruthy w v name)"
    using listed resolveXmlParam_spec [OF own parent] by (simp add: collectXmlParams_map_of)
  have "\<exists>w2. setNewBindingContextIfNeeded c ?w1 = Inr w2"
    using view1 by (simp add: setNewBindingContextIfNeeded_def getView_def newObservable_def)
  then obtain w2 where w2: "setNewBindingContextIfNeeded c ?w1 = Inr w2" ..
  have run: "setAll c ?xml w2 = (None, w')"
    using ok w2 view1 names1
    by (simp add: bindXmlParams_def getNamesOfPropertiesPassedAsXmlAttributes_def getView_def Let_def)
  have view2: "c_view (components w2 c) = Some v"
    using w2 view1
    by (auto simp add: setNewBindingContextIfNeeded_def getView_def newObservable_def
        assignBindingContext_def split: if_splits)
  have "\<exists>r. v_bindingContext (views w2 v) = Some r \<and> keepsWrites (contexts w2 r) ?names"
  proof (cases "v_bindingContext (views ?w1 v) = parentBindingContext ?w1 v")
    case True
    with w2 view1 show ?thesis
      by (auto simp add: setNewBindingContextIfNeeded_def getView_def newObservable_def
        assignBindingContext_def)
  next
    case False
    with w2 view1 have same: "w2 = ?w1"
      by (auto simp add: setNewBindingContextIfNeeded_def getView_def)
    show ?thesis
    proof (cases "v_bindingContext (views w v)")
      case None
      then have "v_bindingContext (views w2 v) = None"
        using same by (simp add: assignView_def)
      from setAll_undefined_context [OF view2 this nonempty] run show ?thesis by simp
    next
      case (Some r)
      with False have "contextOfParent w v \<noteq> Some r"
        by (auto simp add: contextOfParent_def parentBindingContext_def assignView_def
            split: option.splits)
      with store Some have "keepsWrites (contexts w r) ?names" by simp
      with Some same show ?thesis by (simp add: assignView_def)
    qed
  qed
  then obtain r where r: "v_bindingContext (views w2 v) = Some r"
    and kw: "keepsWrites (contexts w2 r) ?names" by blast
  from setAll_store [OF view2 r kw keys dist] run
  have "c_view (components w' c) = Some v" "v_bindingContext (views w' v) = Some r"
    "getBindingContextProperty (contexts w' r) name = firstTruthy w v name"
    using resolved by auto
  then show ?thesis
    by (simp add: component_get_def validateBindingContext_def getBindingContext_def getView_def)
qed

text \<open>
  The scenario of the specification, in which \<open>record\<close> comes from the
  binding context shared with the parent and \<open>fieldName\<close> is the literal
  string; and a view with a binding context of its own, for which \<open>title\<close>
  is the value that context held, \<open>record\<close> the one of the parent's context,
  and \<open>fieldName\<close> the literal.
\<close>

lemma scenario_names: "xmlAttributeNames scenarioWorld 0 = [''fieldName'', ''record'']"
  by (simp add: xmlAttributeNames_def scenarioWorld_def emptyWorld_def blankView_def shouldIgnoreKey_def)

lemma scenario_binds: "fst (bindXmlParams 0 0 scenarioWorld) = None"
  by (simp add: bindXmlParams_def assignView_def getNamesOfPropertiesPassedAsXmlAttributes_def
      scenario_names [unfolded scenarioWorld_def] xmlAttributeNames_def shouldIgnoreKey_def
      getView_def setNewBindingContextIfNeeded_def parentBindingContext_def newObservable_def
      assignBindingContext_def resolveXmlParam_def js_or_def valueFromOriginalBindingContext_def
      valueFromParentBindingContext_def valueFromView_def lookupProp_def
      component_get_def component_set_def validateBindingContext_def getBindingContext_def
      scenarioWorld_def emptyWorld_def blankView_def newComponent_def userRecord_def Let_def)

lemma precedence_names:
  "xmlAttributeNames precedenceWorld 0 = [''fieldName'', ''record'', ''title'']"
  by (simp add: xmlAttributeNames_def precedenceWorld_def emptyWorld_def blankView_def shouldIgnoreKey_def)

lemma precedence_binds: "fst (bindXmlParams 0 0 precedenceWorld) = None"
  by (simp add: bindXmlParams_def assignView_def getNamesOfPropertiesPassedAsXmlAttributes_def
      precedence_names [unfolded precedenceWorld_def] xmlAttributeNames_def shouldIgnoreKey_def
      getView_def setNewBindingContextIfNeeded_def parentBindingContext_def newObservable_def
      assignBindingContext_def resolveXmlParam_def js_or_def valueFromOriginalBindingContext_def
      valueFromParentBindingContext_def valueFromView_def lookupProp_def
      component_get_def component_set_def validateBindingContext_def getBindingContext_def
      precedenceWorld_def emptyWorld_def blankView_def newComponent_def userRecord_def Let_def)

lemma precedence_scenarios:
  "fst (bindXmlParams 0 0 scenarioWorld) = None \<and>
   component_get (snd (bindXmlParams 0 0 scenarioWorld)) 0 ''record'' = Inr userRecord \<and>
   component_get (snd (bindXmlParams 0 0 scenarioWorld)) 0 ''fieldName'' = Inr (Str ''firstName'') \<and>
   fst (bindXmlParams 0 0 precedenceWorld) = None \<and>
   ownValue precedenceWorld 0 ''record'' = Undefined \<and>
   parentValue precedenceWorld 0 ''record'' = userRecord \<and>
   component_get (snd (bindXmlParams 0 0 precedenceWorld)) 0 ''record'' = Inr userRecord \<and>
   component_get (snd (bindXmlParams 0 0 precedenceWorld)) 0 ''fieldName'' = Inr (Str ''firstName'') \<and>
   component_get (snd (bindXmlParams 0 0 precedenceWorld)) 0 ''title'' = Inr (Str ''Profile'')"
proof -
  have ok: "bindXmlParams 0 0 scenarioWorld = (None, snd (bindXmlParams 0 0 scenarioWorld))"
    using scenario_binds by (simp add: prod_eq_iff)
  have store: "\<forall>r. v_bindingContext (views scenarioWorld 0) = Some r \<longrightarrow>
                  contextOfParent scenarioWorld 0 \<noteq> Some r \<longrightarrow>
                  keepsWrites (contexts scenarioWorld r) (xmlAttributeNames scenarioWorld 0)"
    by (simp add: scenarioWorld_def emptyWorld_def blankView_def)
  have parent: "\<forall>r. contextOfParent scenarioWorld 0 = Some r \<longrightarrow> readsEntries (contexts scenarioWorld r)"
    by (simp add: contextOfParent_def scenarioWorld_def emptyWorld_def blankView_def)
  have attr: "passedAsAttribute scenarioWorld 0 ''record''" "passedAsAttribute scenarioWorld 0 ''fieldName''"
    by (simp_all add: passedAsAttribute_names scenario_names)
  have r: "firstTruthy scenarioWorld 0 ''record'' = userRecord"
    by (simp add: firstTruthy_def ownValue_def scenarioWorld_def emptyWorld_def
        blankView_def userRecord_def)
  have f: "firstTruthy scenarioWorld 0 ''fieldName'' = Str ''firstName''"
    by (simp add: firstTruthy_def ownValue_def parentValue_def contextOfParent_def
        literalValue_def scenarioWorld_def emptyWorld_def blankView_def userRecord_def)
  have ok': "bindXmlParams 0 0 precedenceWorld = (None, snd (bindXmlParams 0 0 precedenceWorld))"
    using precedence_binds by (simp add: prod_eq_iff)
  have store': "\<forall>r. v_bindingContext (views precedenceWorld 0) = Some r \<longrightarrow>
                  contextOfParent precedenceWorld 0 \<noteq> Some r \<longrightarrow>
                  keepsWrites (contexts precedenceWorld r) (xmlAttributeNames precedenceWorld 0)"
    by (simp add: precedenceWorld_def emptyWorld_def blankView_def)
  have parent': "\<forall>r. contextOfParent precedenceWorld 0 = Some r \<longrightarrow>
                  readsEntries (contexts precedenceWorld r)"
    by (simp add: contextOfParent_def precedenceWorld_def emptyWorld_def blankView_def)
  have attr': "passedAsAttribute precedenceWorld 0 ''record''"
    "passedAsAttribute precedenceWorld 0 ''fieldName''"
    "passedAsAttribute precedenceWorld 0 ''title''"
    by (simp_all add: passedAsAttribute_names precedence_names)
  have o': "ownValue precedenceWorld 0 ''record'' = Undefined"
    "parentValue precedenceWorld 0 ''record'' = userRecord"
    by (simp_all add: ownValue_def parentValue_def contextOfParent_def precedenceWorld_def
        emptyWorld_def blankView_def)
  have r': "firstTruthy precedenceWorld 0 ''record'' = userRecord"
    using o' by (simp add: firstTruthy_def userRecord_def)
  have f': "firstTruthy precedenceWorld 0 ''fieldName'' = Str ''firstName''"
    by (simp add: firstTruthy_def ownValue_def parentValue_def contextOfParent_def
        literalValue_def precedenceWorld_def emptyWorld_def blankView_def)
  have t': "firstTruthy precedenceWorld 0 ''title'' = Str ''Profile''"
    by (simp add: firstTruthy_def ownValue_def precedenceWorld_def emptyWorld_def blankView_def)
  from xml_params_precedence [OF ok attr(1) store parent]
       xml_params_precedence [OF ok attr(2) store parent]
       xml_params_precedence [OF ok' attr'(1) store' parent']
       xml_params_precedence [OF ok' attr'(2) store' parent']
       xml_params_precedence [OF ok' attr'(3) store' parent']
       scenario_binds precedence_binds r f r' f' t' o'
  show ?thesis by simp
qed

text \<open>
  Claim C3 fails on the code. In \<open>init\<close> the value of an attribute is to
  come from the original binding context and, "if it's not there", from the
  view, as the comment there says; the code writes the choice with \<open>||\<close>,
  which passes over every falsy value, not only a missing one. In the state
  below the dynamic attribute \<open>enabled\<close> resolves to \<open>false\<close> on the binding
  context and the host has left an empty object on the view: the first
  non-empty value is \<open>false\<close>, yet the binding applies the empty object, which
  is truthy.
\<close>

theorem xml_params_falsy_value:
  "fst (bindXmlParams 0 0 falsyWorld) = None \<and>
   passedAsAttribute falsyWorld 0 ''enabled'' \<and>
   ownValue falsyWorld 0 ''enabled'' = Bool False \<and>
   firstNonEmpty falsyWorld 0 ''enabled'' = Bool False \<and>
   component_get (snd (bindXmlParams 0 0 falsyWorld)) 0 ''enabled'' = Inr (Rec [])"
proof -
  have "xmlAttributeNames falsyWorld 0 = [''enabled'']"
    by (simp add: xmlAttributeNames_def falsyWorld_def emptyWorld_def blankView_def shouldIgnoreKey_def)
  then have "passedAsAttribute falsyWorld 0 ''enabled''"
    by (simp add: passedAsAttribute_names)
  moreover have "fst (bindXmlParams 0 0 falsyWorld) = None \<and>
   ownValue falsyWorld 0 ''enabled'' = Bool False \<and>
   firstNonEmpty falsyWorld 0 ''enabled'' = Bool False \<and>
   component_get (snd (bindXmlParams 0 0 falsyWorld)) 0 ''enabled'' = Inr (Rec [])"
    by (simp add: bindXmlParams_def assignView_def getNamesOfPropertiesPassedAsXmlAttributes_def
      xmlAttributeNames_def shouldIgnoreKey_def
      getView_def setNewBindingContextIfNeeded_def parentBindingContext_def newObservable_def
      assignBindingContext_def resolveXmlParam_def js_or_def valueFromOriginalBindingContext_def
      valueFromParentBindingContext_def valueFromView_def lookupProp_def
      component_get_def component_set_def validateBindingContext_def getBindingContext_def
      firstNonEmpty_def ownValue_def parentValue_def contextOfParent_def literalValue_def
      falsyWorld_def emptyWorld_def blankView_def newComponent_def Let_def)
  ultimately show ?thesis by simp
qed

text \<open>
  An attribute of the template whose name the class of the view defines is
  not among the names that \<open>_getNamesOfPropertiesPassedAsXmlAttributes\<close>
  picks: nothing is applied for it.
\<close>

lemma class_defined_attribute_skipped:
  "literalValue classAttributeWorld 0 ''text'' = Str ''hello'' \<and>
   xmlAttributeNames classAttributeWorld 0 = [] \<and>
   fst (bindXmlParams 0 0 classAttributeWorld) = None \<and>
   component_get (snd (bindXmlParams 0 0 classAttributeWorld)) 0 ''text'' = Inr Undefined"
  by (simp add: bindXmlParams_def assignView_def getNamesOfPropertiesPassedAsXmlAttributes_def
      xmlAttributeNames_def shouldIgnoreKey_def
      getView_def setNewBindingContextIfNeeded_def parentBindingContext_def newObservable_def
      assignBindingContext_def literalValue_def
      component_get_def validateBindingContext_def getBindingContext_def
      classAttributeWorld_def emptyWorld_def blankView_def newComponent_def Let_def)

subsection \<open>What the hooks leave unchanged\<close>

lemma sameData_refl: "sameData w w"
  by (simp add: sameData_def)

lemma sameData_trans: "sameData w w' \<Longrightarrow> sameData w' w'' \<Longrightarrow> sameData w w''"
  by (simp add: sameData_def)

lemma sameData_markCalled: "sameData w (markCalled f w)"
  by (simp add: sameData_def markCalled_def)

lemma sameData_storeReturnValue: "sameData w (storeReturnValue f r w)"
  by (simp add: sameData_def storeReturnValue_def)

lemma sameData_runUserHook: "sameData w (snd (runUserHook k this w))"
  by (simp add: sameData_def runUserHook_def split: hookresult.splits)

lemma sameData_chainAfter: "sameData w (snd (chainAfter p c w))"
  by (simp add: sameData_def chainAfter_def)

lemma sameData_hooks:
  "sameData w (snd (callPageLoadedHook n c w))"
  "sameData w (snd (invokeHook n f this w))"
proof (induction n c w and n f this w rule: callPageLoadedHook_invokeHook.induct)
  case (1 c w)
  then show ?case by (simp add: sameData_refl)
next
  case (2 n c w)
  let ?f = "resolveHook w c"
  have a: "sameData w (markCalled ?f w)" by (rule sameData_markCalled)
  have b: "sameData (markCalled ?f w) (snd (invokeHook n ?f c (markCalled ?f w)))"
    using "2.IH" by simp
  show ?case
  proof (cases "invokeHook n ?f c (markCalled ?f w)")
    case (Pair res w')
    with a b have "sameData w w'" by (auto intro: sameData_trans)
    with Pair show ?thesis
      by (cases res) (auto simp add: Let_def intro: sameData_trans sameData_storeReturnValue)
  qed
next
  case (3 f this w)
  then show ?case by (simp add: sameData_refl)
next
  case (4 n f this w)
  show ?case
  proof (cases "f_body (hookFns w f)")
    case (ProtoHook k)
    then show ?thesis by (simp add: sameData_runUserHook)
  next
    case (Wrapper original parent)
    obtain res w' where inner: "invokeHook n original parent w = (res, w')"
      by (cases "invokeHook n original parent w")
    have a: "sameData w w'"
      using "4.IH"(1) [OF Wrapper] inner by simp
    let ?rv = "case res of Inl e \<Rightarrow> Undefined | Inr r \<Rightarrow> r"
    show ?thesis
    proof (cases "\<exists>p. ?rv = Promise p")
      case True
      then obtain p where p: "?rv = Promise p" by blast
      have "sameData w' (snd (chainAfter p this w'))" by (rule sameData_chainAfter)
      with a have "sameData w (snd (chainAfter p this w'))" by (rule sameData_trans)
      with Wrapper inner p show ?thesis
        by (simp add: split_beta)
    next
      case False
      have eq: "snd (invokeHook (Suc n) f this w) = snd (callPageLoadedHook n this w')"
        using Wrapper inner False by (cases ?rv) simp_all
      have "sameData w' (snd (callPageLoadedHook n this w'))"
        using "4.IH"(2-) Wrapper inner [symmetric] False
        by (cases ?rv) auto
      with a eq show ?thesis by (auto intro: sameData_trans)
    qed
  qed
qed

lemma writesOnly_refl: "writesOnly r w w"
  by (simp add: writesOnly_def)

lemma writesOnly_trans: "writesOnly r w w' \<Longrightarrow> writesOnly r w' w'' \<Longrightarrow> writesOnly r w w''"
  by (simp add: writesOnly_def)

lemma sameData_writesOnly: "sameData w w' \<Longrightarrow> writesOnly r w w'"
  by (simp add: sameData_def writesOnly_def)

lemma isObservable_set:
  "isObservable ctx \<Longrightarrow> setBindingContextProperty ctx name x = Some ctx' \<Longrightarrow> isObservable ctx'"
  by (cases ctx) auto

lemma component_set_writesOnly:
  assumes "component_set w c name x = Inr w'"
    and "c_view (components w c) = Some v" and "v_bindingContext (views w v) = Some r"
  shows "writesOnly r w w'"
  using assms
  by (auto simp add: component_set_def validateBindingContext_def getBindingContext_def
      getView_def writesOnly_def split: option.splits intro: isObservable_set)

lemma setAll_writesOnly:
  assumes "c_view (components w c) = Some v"
    and "v_bindingContext (views w v) = None \<or> v_bindingContext (views w v) = Some r"
  shows "writesOnly r w (snd (setAll c kvs w))"
  using assms
proof (induction kvs arbitrary: w)
  case Nil
  then show ?case by (simp add: writesOnly_refl)
next
  case (Cons kv kvs)
  obtain key x where kv: "kv = (key, x)" by (cases kv)
  show ?case
  proof (cases "component_set w c key x")
    case (Inl e)
    with kv show ?thesis by (simp add: writesOnly_refl)
  next
    case (Inr w1)
    then have bc: "v_bindingContext (views w v) = Some r"
      using Cons.prems
      by (auto simp add: component_set_def validateBindingContext_def getBindingContext_def
          getView_def)
    from component_set_writesOnly [OF Inr Cons.prems(1) bc]
    have a: "writesOnly r w w1" .
    then have "c_view (components w1 c) = Some v" "v_bindingContext (views w1 v) = Some r"
      using Cons.prems(1) bc by (simp_all add: writesOnly_def)
    then have "writesOnly r w1 (snd (setAll c kvs w1))"
      by (intro Cons.IH) simp_all
    with a have "writesOnly r w (snd (setAll c kvs w1))" by (rule writesOnly_trans)
    with Inr kv show ?thesis by simp
  qed
qed

lemma setNavigationContextProperties_writesOnly:
  assumes "c_view (components w c) = Some v"
    and "v_bindingContext (views w v) = None \<or> v_bindingContext (views w v) = Some r"
  shows "writesOnly r w (snd (setNavigationContextProperties c ctx w))"
  using setAll_writesOnly [OF assms]
  by (simp add: setNavigationContextProperties_def writesOnly_refl)

lemma hookUpPageLoadedEvent_writesOnly:
  "writesOnly r w (snd (hookUpPageLoadedEvent c w))"
proof (cases "getView w c")
  case (Inl e)
  then show ?thesis by (simp add: hookUpPageLoadedEvent_def writesOnly_refl)
next
  case (Inr v)
  let ?call = "if v_page (views w v) = Some v \<and> v_isLoaded (views w v)
                 then callPageLoadedHook (stackLimit w) c w else (Inr Undefined, w)"
  obtain res w1 where call: "?call = (res, w1)" by (cases ?call)
  have "sameData w (snd ?call)"
    using sameData_hooks(1) by (simp add: sameData_refl)
  with call have sd: "sameData w w1" by simp
  then have a: "writesOnly r w w1" by (rule sameData_writesOnly)
  show ?thesis
  proof (cases res)
    case (Inl e)
    with Inr call a show ?thesis by (simp add: hookUpPageLoadedEvent_def)
  next
    case r: (Inr x)
    show ?thesis
    proof (cases "v_page (views w1 v)")
      case None
      with Inr call a r show ?thesis by (simp add: hookUpPageLoadedEvent_def)
    next
      case (Some page)
      have "writesOnly r w1 (subscribeLoaded page c w1)"
        by (simp add: writesOnly_def subscribeLoaded_def)
      with a have "writesOnly r w (subscribeLoaded page c w1)" by (rule writesOnly_trans)
      with Inr call r Some show ?thesis by (simp add: hookUpPageLoadedEvent_def)
    qed
  qed
qed

lemma writeMarkers_writesOnly:
  assumes "c_view (components w c) = Some v"
    and "v_bindingContext (views w v) = None \<or> v_bindingContext (views w v) = Some r"
  shows "writesOnly r w (snd (writeMarkers c w))"
proof (cases "component_set w c ''_componentId'' (idOf w c)")
  case (Inl e)
  then show ?thesis by (simp add: writeMarkers_def writesOnly_refl)
next
  case (Inr w1)
  then have bc: "v_bindingContext (views w v) = Some r"
    using assms
    by (auto simp add: component_set_def validateBindingContext_def getBindingContext_def getView_def)
  from component_set_writesOnly [OF Inr assms(1) bc] have a: "writesOnly r w w1" .
  show ?thesis
  proof (cases "component_set w1 c ''_component'' (Comp c)")
    case (Inl e)
    with Inr a show ?thesis by (simp add: writeMarkers_def)
  next
    case w2: (Inr w2)
    have "c_view (components w1 c) = Some v" "v_bindingContext (views w1 v) = Some r"
      using a assms(1) bc by (simp_all add: writesOnly_def)
    from component_set_writesOnly [OF w2 this] a
    have "writesOnly r w w2" by (auto intro: writesOnly_trans)
    with Inr w2 show ?thesis by (simp add: writeMarkers_def)
  qed
qed

lemma storeModal_writesOnly: "writesOnly r w (storeModal c opts w)"
  by (simp add: writesOnly_def storeModal_def)

text \<open>The state after the assignment of the view and \<open>_setNewBindingContextIfNeeded\<close>.\<close>

lemma assignView_views [simp]: "views (assignView c v w) = views w"
  by (simp add: assignView_def)

lemma parentBindingContext_assignView [simp]:
  "parentBindingContext (assignView c v w) u = parentBindingContext w u"
  by (simp add: parentBindingContext_def split: option.splits)

lemma assignView_nextContext [simp]: "nextContext (assignView c v w) = nextContext w"
  by (simp add: assignView_def)

lemma setNewBindingContext_after_assign:
  "\<exists>w2. setNewBindingContextIfNeeded c (assignView c v w) = Inr w2 \<and>
     (if v_bindingContext (views w v) = parentBindingContext w v
      then w2 = assignBindingContext v (Some (nextContext w)) (snd (newObservable (assignView c v w)))
      else w2 = assignView c v w)"
proof -
  have "getView (assignView c v w) c = Inr v"
    by (simp add: getView_def assignView_def)
  then show ?thesis
    by (simp add: setNewBindingContextIfNeeded_def newObservable_def)
qed

lemma init_effect:
  assumes "setNewBindingContextIfNeeded c (assignView c v w) = Inr w2"
    and "v_bindingContext (views w2 v) = None \<or> v_bindingContext (views w2 v) = Some r"
  shows "writesOnly r w2 (snd (init c v w))"
proof -
  let ?w1 = "assignView c v w"
  have view1: "c_view (components ?w1 c) = Some v" by (simp add: assignView_def)
  have view2: "c_view (components w2 c) = Some v"
    using assms(1) view1
    by (auto simp add: setNewBindingContextIfNeeded_def getView_def newObservable_def
        assignBindingContext_def split: if_splits)
  obtain names where names: "getNamesOfPropertiesPassedAsXmlAttributes ?w1 c = Inr names"
    using view1 by (simp add: getNamesOfPropertiesPassedAsXmlAttributes_def getView_def)
  let ?xml = "collectXmlParams ?w1 c v names []"
  obtain e3 w3 where w3: "setAll c ?xml w2 = (e3, w3)" by (cases "setAll c ?xml w2")
  have bind: "bindXmlParams c v w = (e3, w3)"
    using names assms(1) w3 by (simp add: bindXmlParams_def Let_def)
  have a: "writesOnly r w2 w3"
    using setAll_writesOnly [OF view2 assms(2), of ?xml] w3 by simp
  show ?thesis
  proof (cases e3)
    case (Some e)
    with bind a show ?thesis by (simp add: init_def)
  next
    case None
    have view3: "c_view (components w3 c) = Some v"
      and bc3: "v_bindingContext (views w3 v) = None \<or> v_bindingContext (views w3 v) = Some r"
      using a view2 assms(2) by (simp_all add: writesOnly_def)
    let ?nav = "v_navigationContext (views w3 v)"
    obtain e4 w4 where w4: "setNavigationContextProperties c ?nav w3 = (e4, w4)"
      by (cases "setNavigationContextProperties c ?nav w3")
    have b: "writesOnly r w3 w4"
      using setNavigationContextProperties_writesOnly [OF view3 bc3, of ?nav] w4 by simp
    with a have ab: "writesOnly r w2 w4" by (rule writesOnly_trans)
    show ?thesis
    proof (cases e4)
      case (Some e)
      with None bind w4 ab show ?thesis by (simp add: init_def)
    next
      case n4: None
      have "writesOnly r w4 (snd (hookUpPageLoadedEvent c w4))"
        by (rule hookUpPageLoadedEvent_writesOnly)
      with ab have "writesOnly r w2 (snd (hookUpPageLoadedEvent c w4))"
        by (rule writesOnly_trans)
      with None n4 bind w4 show ?thesis by (simp add: init_def)
    qed
  qed
qed

lemma onShownModally_effect:
  assumes "setNewBindingContextIfNeeded c (assignView c (o_object opts) w) = Inr w2"
    and "v_bindingContext (views w2 (o_object opts)) = None \<or>
         v_bindingContext (views w2 (o_object opts)) = Some r"
  shows "writesOnly r w2 (snd (onShownModally c opts w))"
proof -
  let ?v = "o_object opts"
  have a: "writesOnly r w2 (snd (init c ?v w))"
    using assms by (rule init_effect)
  obtain e1 w1 where i: "init c ?v w = (e1, w1)" by (cases "init c ?v w")
  show ?thesis
  proof (cases e1)
    case (Some e)
    with i a show ?thesis by (simp add: onShownModally_def)
  next
    case None
    let ?ws = "storeModal c opts w1"
    have b: "writesOnly r w2 ?ws"
      using a i storeModal_writesOnly [of r w1 c opts] by (auto intro: writesOnly_trans)
    have view2: "c_view (components w2 c) = Some ?v"
      using assms(1)
      by (auto simp add: setNewBindingContextIfNeeded_def getView_def newObservable_def
          assignBindingContext_def assignView_def split: if_splits)
    have "c_view (components ?ws c) = Some ?v"
      and "v_bindingContext (views ?ws ?v) = None \<or> v_bindingContext (views ?ws ?v) = Some r"
      using b view2 assms(2) by (simp_all add: writesOnly_def)
    from setNavigationContextProperties_writesOnly [OF this, of "c_modalContext (components ?ws c)"] b
    have "writesOnly r w2 (snd (setNavigationContextProperties c (c_modalContext (components ?ws c)) ?ws))"
      by (auto intro: writesOnly_trans)
    with None i show ?thesis by (simp add: onShownModally_def Let_def)
  qed
qed

lemma callInitHook_effect:
  assumes "setNewBindingContextIfNeeded c (assignView c (o_object opts) w) = Inr w2"
    and "v_bindingContext (views w2 (o_object opts)) = None \<or>
         v_bindingContext (views w2 (o_object opts)) = Some r"
  shows "writesOnly r w2 (snd (callInitHook m c opts w))"
  using init_effect [OF assms] onShownModally_effect [OF assms]
  by (cases m) simp_all

subsection \<open>Instances of a class that is not a singleton\<close>

lemma writeMarkers_marker:
  assumes "writeMarkers c w = (None, w')"
    and "c_view (components w c) = Some v" and "v_bindingContext (views w v) = Some r"
    and "isObservable (contexts w r)"
  shows "getComponentId w' r = idOf w c"
proof -
  obtain store where st: "contexts w r = Observable store"
    using assms(4) by (cases "contexts w r") simp_all
  show ?thesis
    using assms(1,2,3) st
    by (auto simp add: writeMarkers_def component_set_def validateBindingContext_def
        getBindingContext_def getView_def getComponentId_def split: sum.splits option.splits)
qed

lemma writeMarkers_needs_context:
  assumes "writeMarkers c w = (None, w')" and "c_view (components w c) = Some v"
  shows "v_bindingContext (views w v) \<noteq> None"
  using assms
  by (auto simp add: writeMarkers_def component_set_def validateBindingContext_def
      getBindingContext_def getView_def split: sum.splits option.splits)

lemma new_component_step:
  assumes ns: "\<not> isSingleton w k"
    and fresh: "getComponentForRootView w k (o_object opts) = None"
    and ok: "initHookProxy k m opts uuid w = (None, w')"
    and wf: "heapWellFormed w" and obs: "allObservable w"
  shows "instances w' = (instances w)(k := instances w k @ [nextComponent w])"
    and "isSingleton w' = isSingleton w"
    and "nextComponent w' = Suc (nextComponent w)"
    and "\<forall>c'. c' \<noteq> nextComponent w \<longrightarrow>
        c_id (components w' c') = c_id (components w c') \<and>
        c_view (components w' c') = c_view (components w c')"
    and "c_id (components w' (nextComponent w)) = Some uuid"
    and "c_view (components w' (nextComponent w)) = Some (o_object opts)"
    and "\<exists>r. v_bindingContext (views w' (o_object opts)) = Some r \<and>
          getComponentId w' r = Str uuid \<and>
          (v_bindingContext (views w (o_object opts)) = Some r \<or> r = nextContext w) \<and>
          (\<forall>r'. r' \<noteq> r \<longrightarrow> r' \<noteq> nextContext w \<longrightarrow> contexts w' r' = contexts w r')"
    and "\<forall>u. u \<noteq> o_object opts \<longrightarrow>
        v_bindingContext (views w' u) = v_bindingContext (views w u) \<and>
        v_unloadedListeners (views w' u) = v_unloadedListeners (views w u)"
    and "v_unloadedListeners (views w' (o_object opts))
       = v_unloadedListeners (views w (o_object opts)) @ [k]"
    and "heapWellFormed w'" and "allObservable w'"
proof -
  let ?v = "o_object opts"
  let ?c = "nextComponent w"
  let ?wa = "snd (addNewComponent k ?v uuid w)"
  have target: "resolveInitTarget k ?v uuid w = ((?c, True), ?wa)"
    using ns fresh by (simp add: resolveInitTarget_def addNewComponent_def Let_def)
  have wa_inst: "instances ?wa = (instances w)(k := instances w k @ [?c])"
    and wa_single: "isSingleton ?wa = isSingleton w"
    and wa_next: "nextComponent ?wa = Suc ?c"
    and wa_comp: "\<forall>c'. c' \<noteq> ?c \<longrightarrow> components ?wa c' = components w c'"
    and wa_id: "c_id (components ?wa ?c) = Some uuid"
    and wa_bc: "\<forall>u. v_bindingContext (views ?wa u) = v_bindingContext (views w u)"
    and wa_ul: "\<forall>u. u \<noteq> ?v \<longrightarrow> v_unloadedListeners (views ?wa u) = v_unloadedListeners (views w u)"
    and wa_ulv: "v_unloadedListeners (views ?wa ?v) = v_unloadedListeners (views w ?v) @ [k]"
    and wa_ctx: "contexts ?wa = contexts w" "nextContext ?wa = nextContext w"
    using ns by (simp_all add: addNewComponent_def Let_def)
  have wa_parent: "parentBindingContext ?wa ?v = parentBindingContext w ?v"
    using ns by (simp add: addNewComponent_def Let_def parentBindingContext_def split: option.splits)
  obtain e1 wb where hook: "callInitHook m ?c opts ?wa = (e1, wb)"
    by (cases "callInitHook m ?c opts ?wa")
  have e1: "e1 = None"
    using ok target hook by (cases e1) (simp_all add: initHookProxy_def)
  have markers: "writeMarkers ?c wb = (None, w')"
    using ok target hook e1 by (simp add: initHookProxy_def)
  from setNewBindingContext_after_assign [of ?c ?v ?wa]
  obtain w2 where w2: "setNewBindingContextIfNeeded ?c (assignView ?c ?v ?wa) = Inr w2"
    and w2_eq: "if v_bindingContext (views ?wa ?v) = parentBindingContext ?wa ?v
      then w2 = assignBindingContext ?v (Some (nextContext ?wa)) (snd (newObservable (assignView ?c ?v ?wa)))
      else w2 = assignView ?c ?v ?wa"
    by blast
  have w2_view: "c_view (components w2 ?c) = Some ?v"
    and w2_id: "c_id (components w2 ?c) = Some uuid"
    and w2_comp: "\<forall>c'. c' \<noteq> ?c \<longrightarrow> components w2 c' = components w c'"
    and w2_inst: "instances w2 = (instances w)(k := instances w k @ [?c])"
    and w2_single: "isSingleton w2 = isSingleton w"
    and w2_next: "nextComponent w2 = Suc ?c"
    and w2_bc: "\<forall>u. u \<noteq> ?v \<longrightarrow> v_bindingContext (views w2 u) = v_bindingContext (views w u)"
    and w2_ul: "\<forall>u. u \<noteq> ?v \<longrightarrow> v_unloadedListeners (views w2 u) = v_unloadedListeners (views w u)"
    and w2_ulv: "v_unloadedListeners (views w2 ?v) = v_unloadedListeners (views w ?v) @ [k]"
    using w2_eq wa_inst wa_single wa_next wa_comp wa_id wa_bc wa_ul wa_ulv
    by (auto simp add: assignView_def assignBindingContext_def newObservable_def split: if_splits)
  have w2_ctx: "(v_bindingContext (views w2 ?v) = v_bindingContext (views w ?v) \<and>
                 contexts w2 = contexts w \<and> nextContext w2 = nextContext w) \<or>
                (v_bindingContext (views w2 ?v) = Some (nextContext w) \<and>
                 contexts w2 = (contexts w)(nextContext w := Observable (\<lambda>name. Undefined)) \<and>
                 nextContext w2 = Suc (nextContext w))"
    using w2_eq wa_bc wa_ctx
    by (auto simp add: assignView_def assignBindingContext_def newObservable_def split: if_splits)
  have eff: "v_bindingContext (views w2 ?v) = None \<or> v_bindingContext (views w2 ?v) = Some r
      \<Longrightarrow> writesOnly r w2 wb" for r
    using callInitHook_effect [OF w2, of r m] hook by simp
  have "v_bindingContext (views w2 ?v) \<noteq> None"
  proof
    assume none: "v_bindingContext (views w2 ?v) = None"
    then have "writesOnly 0 w2 wb" using eff by simp
    then have "c_view (components wb ?c) = Some ?v" "v_bindingContext (views wb ?v) = None"
      using w2_view none by (simp_all add: writesOnly_def)
    with writeMarkers_needs_context [OF markers] show False by simp
  qed
  then obtain r where r: "v_bindingContext (views w2 ?v) = Some r" by blast
  have a: "writesOnly r w2 wb" using eff r by simp
  have wb_view: "c_view (components wb ?c) = Some ?v"
    and wb_bc: "v_bindingContext (views wb ?v) = Some r"
    and wb_id: "c_id (components wb ?c) = Some uuid"
    using a w2_view w2_id r by (simp_all add: writesOnly_def)
  have b: "writesOnly r wb w'"
    using writeMarkers_writesOnly [OF wb_view, of r] wb_bc markers by simp
  from a b have ab: "writesOnly r w2 w'" by (rule writesOnly_trans)
  have obs2: "\<forall>r'. isObservable (contexts w2 r')"
    using w2_ctx obs by (auto simp add: allObservable_def)
  then have obs_b: "isObservable (contexts wb r)"
    using a by (simp add: writesOnly_def)
  have marker: "getComponentId w' r = Str uuid"
    using writeMarkers_marker [OF markers wb_view wb_bc obs_b] wb_id by (simp add: idOf_def)
  have r_range: "v_bindingContext (views w ?v) = Some r \<or> r = nextContext w"
    using w2_ctx r by auto
  have others: "\<forall>r'. r' \<noteq> r \<longrightarrow> r' \<noteq> nextContext w \<longrightarrow> contexts w' r' = contexts w r'"
    using ab w2_ctx by (auto simp add: writesOnly_def)
  have obs': "allObservable w'"
    unfolding allObservable_def
  proof
    fix r'
    show "isObservable (contexts w' r')"
      using ab obs2 by (cases "r' = r") (auto simp add: writesOnly_def)
  qed
  have wf': "heapWellFormed w'"
    unfolding heapWellFormed_def
  proof (intro allI impI)
    fix u r'
    assume u: "v_bindingContext (views w' u) = Some r'"
    have n: "nextContext w \<le> nextContext w'"
      using ab w2_ctx by (auto simp add: writesOnly_def)
    show "r' < nextContext w'"
    proof (cases "u = ?v")
      case True
      with u ab r have "r' = r" by (simp add: writesOnly_def)
      moreover have "r < nextContext w'"
        using w2_ctx r wf ab by (auto simp add: writesOnly_def heapWellFormed_def)
      ultimately show ?thesis by simp
    next
      case False
      with u ab w2_bc have "v_bindingContext (views w u) = Some r'"
        by (simp add: writesOnly_def)
      with wf have "r' < nextContext w" by (simp add: heapWellFormed_def)
      with n show ?thesis by simp
    qed
  qed
  show "instances w' = (instances w)(k := instances w k @ [?c])"
    and "isSingleton w' = isSingleton w" and "nextComponent w' = Suc ?c"
    and "\<forall>c'. c' \<noteq> ?c \<longrightarrow> c_id (components w' c') = c_id (components w c') \<and>
        c_view (components w' c') = c_view (components w c')"
    and "c_id (components w' ?c) = Some uuid" and "c_view (components w' ?c) = Some ?v"
    and "\<forall>u. u \<noteq> ?v \<longrightarrow> v_bindingContext (views w' u) = v_bindingContext (views w u) \<and>
        v_unloadedListeners (views w' u) = v_unloadedListeners (views w u)"
    and "v_unloadedListeners (views w' ?v) = v_unloadedListeners (views w ?v) @ [k]"
    using ab w2_inst w2_single w2_next w2_comp w2_id w2_view w2_bc w2_ul w2_ulv
    by (simp_all add: writesOnly_def)
  have "v_bindingContext (views w' ?v) = Some r"
    using ab r by (simp add: writesOnly_def)
  with marker r_range others
  show "\<exists>r. v_bindingContext (views w' ?v) = Some r \<and>
          getComponentId w' r = Str uuid \<and>
          (v_bindingContext (views w ?v) = Some r \<or> r = nextContext w) \<and>
          (\<forall>r'. r' \<noteq> r \<longrightarrow> r' \<noteq> nextContext w \<longrightarrow> contexts w' r' = contexts w r')"
    by blast
  show "heapWellFormed w'" by (rule wf')
  show "allObservable w'" by (rule obs')
qed

lemma find_idMatches:
  assumes "c \<in> set xs" and "c_id (components w c) = Some i"
  shows "find (idMatches w (Str i)) xs \<noteq> None"
  using assms by (auto simp add: find_None_iff idMatches_def)

lemma lookup_finds_marked:
  assumes "v_bindingContext (views w v) = Some r" and "getComponentId w r = Str i" and "i \<noteq> []"
    and "c \<in> set (instances w k)" and "c_id (components w c) = Some i"
  shows "getComponentForRootView w k v \<noteq> None"
  using assms find_idMatches [OF assms(4,5)]
  by (simp add: getComponentForRootView_def Let_def)

lemma getComponentId_cong:
  "contexts w' r = contexts w r \<Longrightarrow> getComponentId w' r = getComponentId w r"
  by (simp add: getComponentId_def)

lemma registered_step:
  assumes reg: "registered k w done"
    and ns: "\<not> isSingleton w k"
    and fresh: "getComponentForRootView w k (o_object opts) = None"
    and ok: "initHookProxy k m opts uuid w = (None, w')"
    and wf: "heapWellFormed w" and obs: "allObservable w"
    and dv: "o_object opts \<notin> set (map eventView done)"
    and ne: "[] \<notin> set (map eventId done)"
  shows "registered k w' (done @ [(m, opts, uuid)]) \<and> \<not> isSingleton w' k \<and>
         heapWellFormed w' \<and> allObservable w'"
proof -
  let ?v = "o_object opts"
  let ?c = "nextComponent w"
  note step = new_component_step [OF ns fresh ok wf obs]
  note inst = step(1) and single = step(2) and nxt = step(3) and comps = step(4)
    and cid = step(5) and cview = step(6) and ctx = step(7) and others = step(8)
    and ulv = step(9) and wf' = step(10) and obs' = step(11)
  from ctx obtain r where r: "v_bindingContext (views w' ?v) = Some r"
    and marker: "getComponentId w' r = Str uuid"
    and r_range: "v_bindingContext (views w ?v) = Some r \<or> r = nextContext w"
    and frame: "\<forall>r'. r' \<noteq> r \<longrightarrow> r' \<noteq> nextContext w \<longrightarrow> contexts w' r' = contexts w r'"
    by blast
  have len: "length (instances w k) = length done"
    using reg by (simp add: registered_def)
  have "registered k w' (done @ [(m, opts, uuid)])"
    unfolding registered_def
  proof (rule conjI [OF _ allI [OF impI]])
    show "length (instances w' k) = length (done @ [(m, opts, uuid)])"
      using inst len by simp
  next
    fix j
    assume j: "j < length (done @ [(m, opts, uuid)])"
    show "c_id (components w' (instances w' k ! j)) = Some (eventId ((done @ [(m, opts, uuid)]) ! j)) \<and>
          c_view (components w' (instances w' k ! j)) = Some (eventView ((done @ [(m, opts, uuid)]) ! j)) \<and>
          instances w' k ! j < nextComponent w' \<and>
          (\<exists>r. v_bindingContext (views w' (eventView ((done @ [(m, opts, uuid)]) ! j))) = Some r \<and>
               getComponentId w' r = Str (eventId ((done @ [(m, opts, uuid)]) ! j))) \<and>
          k \<in> set (v_unloadedListeners (views w' (eventView ((done @ [(m, opts, uuid)]) ! j))))"
    proof (cases "j < length done")
      case True
      let ?cj = "instances w k ! j"
      let ?ev = "done ! j"
      have old: "c_id (components w ?cj) = Some (eventId ?ev)"
        "c_view (components w ?cj) = Some (eventView ?ev)"
        "?cj < nextComponent w"
        "\<exists>r. v_bindingContext (views w (eventView ?ev)) = Some r \<and> getComponentId w r = Str (eventId ?ev)"
        "k \<in> set (v_unloadedListeners (views w (eventView ?ev)))"
        using reg True by (simp_all add: registered_def)
      from old(4) obtain rj where rj: "v_bindingContext (views w (eventView ?ev)) = Some rj"
        and mj: "getComponentId w rj = Str (eventId ?ev)" by blast
      have nth_i: "instances w' k ! j = ?cj"
        using inst True len by (simp add: nth_append)
      have nth_e: "(done @ [(m, opts, uuid)]) ! j = ?ev"
        using True by (simp add: nth_append)
      have "?ev \<in> set done" using True by simp
      then have "eventView ?ev \<in> set (map eventView done)" "eventId ?ev \<in> set (map eventId done)"
        by simp_all
      then have vne: "eventView ?ev \<noteq> ?v" and idne: "eventId ?ev \<noteq> []"
        using dv ne by metis+
      have cne: "?cj \<noteq> ?c" using old(3) by simp
      have cj_in: "?cj \<in> set (instances w k)"
        using True len by simp
      have rj_lt: "rj < nextContext w"
        using wf rj by (simp add: heapWellFormed_def)
      have "rj \<noteq> r"
      proof
        assume eq: "rj = r"
        with r_range rj_lt have "v_bindingContext (views w ?v) = Some rj" by auto
        from lookup_finds_marked [OF this mj idne cj_in old(1)] fresh show False by simp
      qed
      with frame rj_lt have "contexts w' rj = contexts w rj" by simp
      then have "getComponentId w' rj = getComponentId w rj"
        by (rule getComponentId_cong)
      then have "getComponentId w' rj = Str (eventId ?ev)"
        using mj by simp
      moreover have "v_bindingContext (views w' (eventView ?ev)) = Some rj"
        using others vne rj by simp
      moreover have "k \<in> set (v_unloadedListeners (views w' (eventView ?ev)))"
        using others vne old(5) by simp
      moreover have "c_id (components w' ?cj) = Some (eventId ?ev)"
        "c_view (components w' ?cj) = Some (eventView ?ev)" "?cj < nextComponent w'"
        using comps cne old(1,2,3) nxt by simp_all
      ultimately show ?thesis
        unfolding nth_i nth_e by blast
    next
      case False
      with j have jl: "j = length done" by simp
      have nth_i: "instances w' k ! j = ?c"
        using inst len jl by (simp add: nth_append)
      have nth_e: "(done @ [(m, opts, uuid)]) ! j = (m, opts, uuid)"
        using jl by (simp add: nth_append)
      show ?thesis
        using nth_i nth_e cid cview nxt r marker ulv
        by (simp add: eventId_def eventView_def)
    qed
  qed
  with single ns wf' obs' show ?thesis by simp
qed

lemma registered_run:
  assumes "registered k w done" and "\<not> isSingleton w k"
    and "heapWellFormed w" and "allObservable w"
    and "eachViewNew k rest w"
    and "fireInitHooks k rest w = (None, w')"
    and "distinct (map eventView (done @ rest))"
    and "[] \<notin> set (map eventId (done @ rest))"
  shows "registered k w' (done @ rest) \<and> \<not> isSingleton w' k"
  using assms
proof (induction rest arbitrary: w "done")
  case Nil
  then show ?case by simp
next
  case (Cons ev rest)
  obtain m opts uuid where ev: "ev = (m, opts, uuid)" by (cases ev)
  obtain e1 w1 where step: "initHookProxy k m opts uuid w = (e1, w1)"
    by (cases "initHookProxy k m opts uuid w")
  have e1: "e1 = None"
    using Cons.prems(6) ev step by (cases e1) simp_all
  have fresh: "getComponentForRootView w k (o_object opts) = None"
    using Cons.prems(5) ev by simp
  have dv: "o_object opts \<notin> set (map eventView done)"
    using Cons.prems(7) ev by (auto simp add: eventView_def)
  have ne: "[] \<notin> set (map eventId done)"
    using Cons.prems(8) by auto
  from registered_step [OF Cons.prems(1,2) fresh _ Cons.prems(3,4) dv ne, of m uuid w1] step e1
  have r1: "registered k w1 (done @ [(m, opts, uuid)])" "\<not> isSingleton w1 k"
    "heapWellFormed w1" "allObservable w1"
    by simp_all
  have "registered k w' ((done @ [(m, opts, uuid)]) @ rest) \<and> \<not> isSingleton w' k"
  proof (rule Cons.IH [OF r1])
    show "eachViewNew k rest w1" using Cons.prems(5) ev step by simp
    show "fireInitHooks k rest w1 = (None, w')" using Cons.prems(6) ev step e1 by simp
    show "distinct (map eventView ((done @ [(m, opts, uuid)]) @ rest))"
      using Cons.prems(7) ev by simp
    show "[] \<notin> set (map eventId ((done @ [(m, opts, uuid)]) @ rest))"
      using Cons.prems(8) ev by simp
  qed
  with ev show ?case by simp
qed

lemma findIndex_None: "(findIndex P xs = None) = (\<forall>x \<in> set xs. \<not> P x)"
  by (induction xs) (auto split: option.splits)

lemma findIndex_distinct:
  "distinct (map f xs) \<Longrightarrow> m < length xs \<Longrightarrow> findIndex (\<lambda>c. f c = f (xs ! m)) xs = Some m"
proof (induction xs arbitrary: m)
  case Nil
  then show ?case by simp
next
  case (Cons x xs)
  show ?case
  proof (cases m)
    case 0
    then show ?thesis by simp
  next
    case (Suc n)
    with Cons.prems have n: "n < length xs" and d: "distinct (map f xs)" by simp_all
    have "f x \<noteq> f (xs ! n)"
      using Cons.prems(1) n by (metis distinct.simps(2) image_eqI list.simps(9) list.set_map nth_mem)
    with Cons.IH [OF d n] Suc show ?thesis by simp
  qed
qed

lemma splice1_misses:
  assumes "distinct (map f xs)" and "m < length xs"
  shows "\<forall>x \<in> set (splice1 m xs). f x \<noteq> f (xs ! m)"
proof -
  have "xs = take m xs @ (xs ! m) # drop (Suc m) xs"
    using assms(2) by (rule id_take_nth_drop)
  then have "distinct (map f (take m xs @ (xs ! m) # drop (Suc m) xs))"
    using assms(1) by simp
  then have "f (xs ! m) \<notin> f ` set (take m xs)" "f (xs ! m) \<notin> f ` set (drop (Suc m) xs)"
    by auto
  then show ?thesis
    by (auto simp add: splice1_def) (metis imageI)+
qed

lemma idMatches_Str: "idMatches w (Str i) = (\<lambda>c. c_id (components w c) = Some i)"
  by (rule ext) (simp add: idMatches_def)

lemma unloadedHandler_frame:
  "views (unloadedHandler k' v w) = views w"
  "contexts (unloadedHandler k' v w) = contexts w"
  "components (unloadedHandler k' v w) = components w"
  "k' \<noteq> k \<Longrightarrow> instances (unloadedHandler k' v w) k = instances w k"
  by (simp_all add: unloadedHandler_def Let_def split: option.splits)

lemma unloadedHandler_own:
  assumes "v_bindingContext (views w v) = Some r" and "getComponentId w r = Str i"
  shows "instances (unloadedHandler k v w) k =
     (case findIndex (\<lambda>c. c_id (components w c) = Some i) (instances w k) of
        None \<Rightarrow> instances w k
      | Some n \<Rightarrow> splice1 n (instances w k))"
  using assms by (simp add: unloadedHandler_def Let_def idMatches_Str split: option.splits)

lemma runUnloadedHandlers_removes:
  assumes "v_bindingContext (views w v) = Some r" and "getComponentId w r = Str i"
    and "distinct (map (\<lambda>c. c_id (components w c)) xs)"
    and "m < length xs" and "c_id (components w (xs ! m)) = Some i"
    and "instances w k = xs \<or> instances w k = splice1 m xs"
  shows "instances (runUnloadedHandlers ks v w) k
       = (if k \<in> set ks then splice1 m xs else instances w k)"
  using assms
proof (induction ks arbitrary: w)
  case Nil
  then show ?case by simp
next
  case (Cons k' ks)
  let ?w1 = "unloadedHandler k' v w"
  have same: "v_bindingContext (views ?w1 v) = Some r" "getComponentId ?w1 r = Str i"
    "distinct (map (\<lambda>c. c_id (components ?w1 c)) xs)" "c_id (components ?w1 (xs ! m)) = Some i"
    using Cons.prems(1,2,3,5) by (simp_all add: unloadedHandler_frame getComponentId_def)
  show ?case
  proof (cases "k' = k")
    case False
    then have i1: "instances ?w1 k = instances w k" by (simp add: unloadedHandler_frame)
    with Cons.prems(6) have "instances ?w1 k = xs \<or> instances ?w1 k = splice1 m xs" by simp
    from Cons.IH [OF same(1,2,3) Cons.prems(4) same(4) this] i1 False
    show ?thesis by simp
  next
    case True
    have own: "instances ?w1 k = splice1 m xs"
    proof (cases "instances w k = xs")
      case xs: True
      have "findIndex (\<lambda>c. c_id (components w c) = Some i) xs = Some m"
        using findIndex_distinct [OF Cons.prems(3,4)] Cons.prems(5) by simp
      with unloadedHandler_own [OF Cons.prems(1,2), of k] xs True show ?thesis by simp
    next
      case False
      with Cons.prems(6) have sp: "instances w k = splice1 m xs" by simp
      have "\<forall>x \<in> set (splice1 m xs). c_id (components w x) \<noteq> Some i"
        using splice1_misses [OF Cons.prems(3,4)] Cons.prems(5) by simp
      then have "findIndex (\<lambda>c. c_id (components w c) = Some i) (splice1 m xs) = None"
        by (simp add: findIndex_None)
      with unloadedHandler_own [OF Cons.prems(1,2), of k] sp True show ?thesis by simp
    qed
    then have "instances ?w1 k = xs \<or> instances ?w1 k = splice1 m xs" by simp
    from Cons.IH [OF same(1,2,3) Cons.prems(4) same(4) this] own True
    show ?thesis by simp
  qed
qed

lemma registered_ids:
  assumes "registered k w evs"
  shows "map (\<lambda>c. c_id (components w c)) (instances w k) = map (\<lambda>ev. Some (eventId ev)) evs"
    and "map (\<lambda>c. c_view (components w c)) (instances w k) = map (\<lambda>ev. Some (eventView ev)) evs"
  using assms by (auto simp add: registered_def list_eq_iff_nth_eq)

lemma registered_empty: "instances w k = [] \<Longrightarrow> registered k w []"
  by (simp add: registered_def)

text \<open>
  Where the manager does keep one instance per view. For a class that is not
  a singleton and has no instance yet, let the host send initialization events
  for pairwise distinct views, none of which is associated with a known
  instance when its event arrives, with pairwise distinct, non-empty
  identifiers drawn by \<open>generateUuid\<close>, on a heap of observables, and let
  every call return. Then the manager holds one instance per event, all
  distinct, each with the identifier and the view of its event; and the
  \<open>unloaded\<close> event of any of the views removes exactly the instance of that
  view and leaves the others in place.
\<close>

lemma nonsingleton_instances:
  assumes "\<not> isSingleton w0 k" and "instances w0 k = []"
    and "heapWellFormed w0" and "allObservable w0"
    and "distinct (map eventView evs)" and "distinct (map eventId evs)"
    and "[] \<notin> set (map eventId evs)"
    and "eachViewNew k evs w0"
    and "fireInitHooks k evs w0 = (None, w)"
  shows "length (instances w k) = length evs \<and> distinct (instances w k) \<and>
     map (\<lambda>c. c_id (components w c)) (instances w k) = map (\<lambda>ev. Some (eventId ev)) evs \<and>
     map (\<lambda>c. c_view (components w c)) (instances w k) = map (\<lambda>ev. Some (eventView ev)) evs \<and>
     (\<forall>m < length evs.
        instances (fireUnloaded (eventView (evs ! m)) w) k = splice1 m (instances w k))"
proof -
  have reg: "registered k w evs"
    using registered_run [OF registered_empty [OF assms(2)] assms(1,3,4,8,9)] assms(5,7) by simp
  note ids = registered_ids [OF reg]
  have len: "length (instances w k) = length evs"
    using reg by (simp add: registered_def)
  have dids: "distinct (map (\<lambda>c. c_id (components w c)) (instances w k))"
    using ids(1) assms(6) by (simp add: distinct_map inj_on_def comp_def)
  then have dist: "distinct (instances w k)"
    by (simp add: distinct_map)
  have "\<forall>m < length evs.
        instances (fireUnloaded (eventView (evs ! m)) w) k = splice1 m (instances w k)"
  proof (intro allI impI)
    fix m
    assume m: "m < length evs"
    let ?v = "eventView (evs ! m)"
    from reg m obtain r where r: "v_bindingContext (views w ?v) = Some r"
      and marker: "getComponentId w r = Str (eventId (evs ! m))"
      and listed: "k \<in> set (v_unloadedListeners (views w ?v))"
      and cid: "c_id (components w (instances w k ! m)) = Some (eventId (evs ! m))"
      by (auto simp add: registered_def)
    have ml: "m < length (instances w k)" using m len by simp
    from runUnloadedHandlers_removes [OF r marker dids ml cid, of k "v_unloadedListeners (views w ?v)"]
      listed
    show "instances (fireUnloaded ?v w) k = splice1 m (instances w k)"
      by (simp add: fireUnloaded_def)
  qed
  with len dist ids show ?thesis by simp
qed

lemma siblings_fire: "fst (fireInitHooks 2 siblingEvents siblingsWorld) = None"
  by code_simp

lemma siblings_new: "eachViewNew 2 siblingEvents siblingsWorld"
  by code_simp

lemma siblings_instances:
  "\<not> isSingleton siblingsWorld 2 \<and> instances siblingsWorld 2 = [] \<and>
   distinct (map eventView siblingEvents) \<and> distinct (map eventId siblingEvents) \<and>
   eachViewNew 2 siblingEvents siblingsWorld \<and>
   fst (fireInitHooks 2 siblingEvents siblingsWorld) = None \<and>
   length (instances (snd (fireInitHooks 2 siblingEvents siblingsWorld)) 2) = 3 \<and>
   distinct (instances (snd (fireInitHooks 2 siblingEvents siblingsWorld)) 2) \<and>
   instances (fireUnloaded 2 (snd (fireInitHooks 2 siblingEvents siblingsWorld))) 2
     = splice1 1 (instances (snd (fireInitHooks 2 siblingEvents siblingsWorld)) 2)"
proof -
  let ?w = "snd (fireInitHooks 2 siblingEvents siblingsWorld)"
  have a: "\<not> isSingleton siblingsWorld 2" "instances siblingsWorld 2 = []"
    by (simp_all add: siblingsWorld_def emptyWorld_def)
  have wf: "heapWellFormed siblingsWorld"
    by (simp add: heapWellFormed_def siblingsWorld_def emptyWorld_def blankView_def)
  have obs: "allObservable siblingsWorld"
    by (simp add: allObservable_def siblingsWorld_def emptyWorld_def)
  have d: "distinct (map eventView siblingEvents)" "distinct (map eventId siblingEvents)"
    "[] \<notin> set (map eventId siblingEvents)"
    by (simp_all add: siblingEvents_def eventView_def eventId_def plainOptions_def)
  have run: "fireInitHooks 2 siblingEvents siblingsWorld = (None, ?w)"
    using siblings_fire by (simp add: prod_eq_iff)
  have l: "length siblingEvents = 3" "eventView (siblingEvents ! 1) = 2"
    by (simp_all add: siblingEvents_def eventView_def plainOptions_def)
  note inst = nonsingleton_instances [OF a wf obs d siblings_new run]
  have "1 < length siblingEvents" using l by simp
  with inst have "instances (fireUnloaded (eventView (siblingEvents ! 1)) ?w) 2
      = splice1 1 (instances ?w 2)"
    by blast
  with inst l
  have "length (instances ?w 2) = 3" "distinct (instances ?w 2)"
    "instances (fireUnloaded 2 ?w) 2 = splice1 1 (instances ?w 2)"
    by simp_all
  with a d siblings_new siblings_fire show ?thesis by simp
qed

text \<open>
  Claim C6 fails on the code. The manager is to allow "each instance of the
  view to have its own Component instance and, thus, independent state", as
  the comment of its class says. It recognises the view of an event by the
  \<open>_componentId\<close> on the view's binding context. For two distinct views
  that were given one and the same binding context, the second event finds
  the instance of the first view there: no second instance is created, and
  the one instance is initialized again, now for the second view.
\<close>

theorem shared_context_single_instance:
  "distinct (map eventView sharedEvents) \<and> length sharedEvents = 2 \<and>
   fst (fireInitHooks 2 sharedEvents sharedWorld) = None \<and>
   instances (snd (fireInitHooks 2 sharedEvents sharedWorld)) 2 = [0] \<and>
   c_view (components (snd (fireInitHooks 2 sharedEvents sharedWorld)) 0) = Some 2"
  by code_simp

subsection \<open>The instance of a singleton class\<close>

lemma sameRegistry_refl: "sameRegistry w w"
  by (simp add: sameRegistry_def)

lemma sameRegistry_trans: "sameRegistry w w' \<Longrightarrow> sameRegistry w' w'' \<Longrightarrow> sameRegistry w w''"
  by (simp add: sameRegistry_def)

lemma sameData_sameRegistry: "sameData w w' \<Longrightarrow> sameRegistry w w'"
  by (simp add: sameData_def sameRegistry_def)

lemma writesOnly_sameRegistry: "writesOnly r w w' \<Longrightarrow> sameRegistry w w'"
  by (simp add: writesOnly_def sameRegistry_def)

lemma callInitHook_sameRegistry: "sameRegistry w (snd (callInitHook m c opts w))"
proof -
  let ?v = "o_object opts"
  from setNewBindingContext_after_assign [of c ?v w]
  obtain w2 where w2: "setNewBindingContextIfNeeded c (assignView c ?v w) = Inr w2"
    and eq: "if v_bindingContext (views w ?v) = parentBindingContext w ?v
      then w2 = assignBindingContext ?v (Some (nextContext w)) (snd (newObservable (assignView c ?v w)))
      else w2 = assignView c ?v w"
    by blast
  have a: "sameRegistry w w2"
    using eq
    by (auto simp add: sameRegistry_def assignView_def assignBindingContext_def newObservable_def
        split: if_splits)
  obtain r where "v_bindingContext (views w2 ?v) = None \<or> v_bindingContext (views w2 ?v) = Some r"
    by (cases "v_bindingContext (views w2 ?v)") auto
  from callInitHook_effect [OF w2 this, of m]
  have "sameRegistry w2 (snd (callInitHook m c opts w))"
    by (rule writesOnly_sameRegistry)
  with a show ?thesis by (rule sameRegistry_trans)
qed

lemma writeMarkers_sameRegistry: "sameRegistry w (snd (writeMarkers c w))"
  by (auto simp add: writeMarkers_def component_set_def sameRegistry_def
      split: sum.splits option.splits)

lemma after_target_sameRegistry:
  "sameRegistry w
     (snd (case callInitHook m c opts w of
             (Some e, w2) \<Rightarrow> (Some e, w2)
           | (None, w2) \<Rightarrow> if added then writeMarkers c w2 else (None, w2)))"
proof -
  obtain e w2 where h: "callInitHook m c opts w = (e, w2)" by (cases "callInitHook m c opts w")
  have a: "sameRegistry w w2"
    using callInitHook_sameRegistry [where w = w and m = m and c = c and opts = opts] h by simp
  have "sameRegistry w2 (snd (writeMarkers c w2))" by (rule writeMarkers_sameRegistry)
  with a have "sameRegistry w (snd (writeMarkers c w2))" by (rule sameRegistry_trans)
  with a h show ?thesis by (cases e) simp_all
qed

lemma initHookProxy_registry:
  "\<exists>c added wa. resolveInitTarget k (o_object opts) uuid w = ((c, added), wa) \<and>
      sameRegistry wa (snd (initHookProxy k m opts uuid w))"
proof -
  obtain c added wa where t: "resolveInitTarget k (o_object opts) uuid w = ((c, added), wa)"
    by (cases "resolveInitTarget k (o_object opts) uuid w") auto
  have "sameRegistry wa (snd (initHookProxy k m opts uuid w))"
    using after_target_sameRegistry [where w = wa and m = m and c = c and opts = opts and added = added] t
    by (simp add: initHookProxy_def)
  with t show ?thesis by blast
qed

lemma lookup_in_instances:
  "getComponentForRootView w k v = Some c \<Longrightarrow> c \<in> set (instances w k)"
  by (auto simp add: getComponentForRootView_def Let_def find_Some_iff
      split: option.splits if_splits)

lemma resolveInitTarget_singleton:
  assumes "isSingleton w k"
  shows "resolveInitTarget k v uuid w =
     (case instances w k of
        [] \<Rightarrow> ((nextComponent w, True), snd (addNewComponent k v uuid w))
      | c # cs \<Rightarrow> ((fst (fst (resolveInitTarget k v uuid w)), False), w))"
proof (cases "getComponentForRootView w k v")
  case None
  with assms show ?thesis
    by (cases "instances w k") (simp_all add: resolveInitTarget_def addNewComponent_def Let_def)
next
  case (Some c)
  then have "instances w k \<noteq> []" using lookup_in_instances by fastforce
  with Some show ?thesis
    by (cases "instances w k") (simp_all add: resolveInitTarget_def)
qed

lemma resolveInitTarget_sole:
  assumes "isSingleton w k" and "instances w k = [c]"
  shows "resolveInitTarget k v uuid w = ((c, False), w)"
proof (cases "getComponentForRootView w k v")
  case None
  with assms show ?thesis by (simp add: resolveInitTarget_def)
next
  case (Some c')
  then have "c' = c" using lookup_in_instances [OF Some] assms(2) by simp
  with Some show ?thesis by (simp add: resolveInitTarget_def)
qed

lemma resolveInitTarget_other:
  assumes "k' \<noteq> k"
  shows "instances (snd (resolveInitTarget k' v uuid w)) k = instances w k"
    and "isSingleton (snd (resolveInitTarget k' v uuid w)) = isSingleton w"
    and "(k \<in> set (v_unloadedListeners (views (snd (resolveInitTarget k' v uuid w)) u)))
         = (k \<in> set (v_unloadedListeners (views w u)))"
  using assms
  by (auto simp add: resolveInitTarget_def addNewComponent_def Let_def split: option.splits)

lemma proxyMethod_sameRegistry: "sameRegistry w (snd (proxyMethod k name view w))"
  by (auto simp add: proxyMethod_def sameRegistry_def split: list.splits sum.splits jsval.splits)

lemma patchParent_sameRegistry: "sameRegistry w (patchParent p w)"
  by (simp add: patchParent_def sameRegistry_def)

lemma onPageLoadedListener_sameRegistry: "sameRegistry w (snd (onPageLoadedListener c w))"
proof -
  have call: "sameRegistry w (snd (callPageLoadedHook n c w))" for n
    using sameData_hooks(1) by (rule sameData_sameRegistry)
  have chain: "sameRegistry w (snd (chainAfter q c w))" for q
    using sameData_chainAfter by (rule sameData_sameRegistry)
  show ?thesis
  proof (cases "getParentComponent w c")
    case (Inl e)
    then show ?thesis by (simp add: onPageLoadedListener_def sameRegistry_refl)
  next
    case (Inr parentComponent)
    show ?thesis
    proof (cases "truthy parentComponent")
      case False
      with Inr call show ?thesis by (simp add: onPageLoadedListener_def)
    next
      case True
      show ?thesis
      proof (cases parentComponent)
        case (Comp p)
        show ?thesis
        proof (cases "f_wasCalled (hookFns w (resolveHook w p))")
          case False
          with Inr True Comp show ?thesis
            by (simp add: onPageLoadedListener_def patchParent_sameRegistry)
        next
          case called: True
          show ?thesis
          proof (cases "f_returnValue (hookFns w (resolveHook w p))")
            case (Promise q)
            with Inr True Comp called chain [of q] show ?thesis
              by (simp add: onPageLoadedListener_def split_beta)
          qed (use Inr True Comp called call in \<open>simp_all add: onPageLoadedListener_def\<close>)
        qed
      qed (use Inr True in \<open>simp_all add: onPageLoadedListener_def sameRegistry_refl\<close>)
    qed
  qed
qed

lemma runLoadedListeners_sameRegistry: "sameRegistry w (snd (runLoadedListeners cs w))"
proof (induction cs arbitrary: w)
  case Nil
  then show ?case by (simp add: sameRegistry_refl)
next
  case (Cons c cs)
  obtain res w1 where l: "onPageLoadedListener c w = (res, w1)"
    by (cases "onPageLoadedListener c w")
  have a: "sameRegistry w w1"
    using onPageLoadedListener_sameRegistry [of w c] l by simp
  show ?case
  proof (cases res)
    case (Inl e)
    with l a show ?thesis by simp
  next
    case (Inr x)
    from a Cons.IH [of w1] have "sameRegistry w (snd (runLoadedListeners cs w1))"
      by (rule sameRegistry_trans)
    with l Inr show ?thesis by simp
  qed
qed

lemma firePageLoaded_sameRegistry: "sameRegistry w (snd (firePageLoaded page w))"
  by (simp add: firePageLoaded_def runLoadedListeners_sameRegistry)

lemma unloadedHandler_singleton_frame:
  "isSingleton (unloadedHandler k' v w) = isSingleton w"
  by (simp add: unloadedHandler_def Let_def split: option.splits)

lemma runUnloadedHandlers_other:
  "k \<notin> set ks \<Longrightarrow>
   instances (runUnloadedHandlers ks v w) k = instances w k \<and>
   isSingleton (runUnloadedHandlers ks v w) = isSingleton w \<and>
   views (runUnloadedHandlers ks v w) = views w"
proof (induction ks arbitrary: w)
  case Nil
  then show ?case by simp
next
  case (Cons k' ks)
  then have "k' \<noteq> k" "k \<notin> set ks" by auto
  with Cons.IH [of "unloadedHandler k' v w"] show ?case
    by (simp add: unloadedHandler_frame unloadedHandler_singleton_frame)
qed

lemma singleton_step:
  assumes "singletonInv k w"
  shows "singletonInv k (step e w) \<and>
         (instances w k \<noteq> [] \<longrightarrow> instances (step e w) k = instances w k)"
proof (cases e)
  case (HookEvent k' m opts uuid)
  from initHookProxy_registry [of k' opts uuid w m]
  obtain c added wa where t: "resolveInitTarget k' (o_object opts) uuid w = ((c, added), wa)"
    and same: "sameRegistry wa (step e w)"
    using HookEvent by auto
  have "singletonInv k wa \<and> (instances w k \<noteq> [] \<longrightarrow> instances wa k = instances w k)"
  proof (cases "k' = k")
    case True
    show ?thesis
    proof (cases "instances w k")
      case Nil
      with assms True t resolveInitTarget_singleton [of w k "o_object opts" uuid]
      have "wa = snd (addNewComponent k (o_object opts) uuid w)"
        by (simp add: singletonInv_def)
      with assms Nil show ?thesis
        by (simp add: singletonInv_def addNewComponent_def Let_def)
    next
      case (Cons c' cs)
      with assms True t resolveInitTarget_singleton [of w k "o_object opts" uuid]
      have "wa = w" by (simp add: singletonInv_def)
      with assms show ?thesis by simp
    qed
  next
    case False
    from resolveInitTarget_other [OF False, of "o_object opts" uuid w] t assms
    show ?thesis by (simp add: singletonInv_def)
  qed
  with same show ?thesis
    by (simp add: singletonInv_def sameRegistry_def)
next
  case (MethodEvent k' name view)
  with assms proxyMethod_sameRegistry [of w k' name view] show ?thesis
    by (simp add: singletonInv_def sameRegistry_def)
next
  case (UnloadedEvent view)
  have "k \<notin> set (v_unloadedListeners (views w view))"
    using assms by (simp add: singletonInv_def)
  from runUnloadedHandlers_other [OF this, of view w] UnloadedEvent assms show ?thesis
    by (simp add: singletonInv_def fireUnloaded_def)
next
  case (PageLoadedEvent page)
  with assms firePageLoaded_sameRegistry [of w page] show ?thesis
    by (simp add: singletonInv_def sameRegistry_def)
qed

lemma singleton_run:
  assumes "singletonInv k w"
  shows "singletonInv k (fold step es w) \<and>
         (instances w k \<noteq> [] \<longrightarrow> instances (fold step es w) k = instances w k)"
  using assms
proof (induction es arbitrary: w)
  case Nil
  then show ?case by simp
next
  case (Cons e es)
  from singleton_step [OF Cons.prems, of e]
  have a: "singletonInv k (step e w)"
    and b: "instances w k \<noteq> [] \<longrightarrow> instances (step e w) k = instances w k" by simp_all
  from Cons.IH [OF a] b show ?case by auto
qed

text \<open>
  Claim C7. For a singleton class whose manager has no instance and no
  \<open>unloaded\<close> handler yet, after any sequence of events of the host the list
  of instances has at most one entry; once it holds an instance, no further
  event, \<open>unloaded\<close> included, changes the list, and every initialization
  hook and every other method is dispatched to that instance, whatever the
  view; while the list is empty, the next initialization hook creates the
  instance.
\<close>

theorem singleton_sole_instance:
  assumes "isSingleton w0 k" and "instances w0 k = []"
    and "\<forall>v. k \<notin> set (v_unloadedListeners (views w0 v))"
  shows "length (instances (fold step es w0) k) \<le> 1 \<and>
     (\<forall>c. instances (fold step es w0) k = [c] \<longrightarrow>
        (\<forall>es'. instances (fold step es' (fold step es w0)) k = [c]) \<and>
        (\<forall>view uuid. resolveInitTarget k view uuid (fold step es w0) = ((c, False), fold step es w0)) \<and>
        (\<forall>name view. fst (proxyMethod k name view (fold step es w0)) = Inr (CalledOn c))) \<and>
     (instances (fold step es w0) k = [] \<longrightarrow>
        (\<forall>view uuid.
           fst (resolveInitTarget k view uuid (fold step es w0))
             = (nextComponent (fold step es w0), True) \<and>
           instances (snd (resolveInitTarget k view uuid (fold step es w0))) k
             = [nextComponent (fold step es w0)]))"
proof -
  let ?w = "fold step es w0"
  have "singletonInv k w0"
    using assms by (simp add: singletonInv_def)
  then have inv: "singletonInv k ?w"
    using singleton_run by blast
  then have single: "isSingleton ?w k" and len: "length (instances ?w k) \<le> 1"
    by (simp_all add: singletonInv_def)
  have sole: "instances ?w k = [c] \<longrightarrow>
        (\<forall>es'. instances (fold step es' ?w) k = [c]) \<and>
        (\<forall>view uuid. resolveInitTarget k view uuid ?w = ((c, False), ?w)) \<and>
        (\<forall>name view. fst (proxyMethod k name view ?w) = Inr (CalledOn c))" for c
  proof
    assume c: "instances ?w k = [c]"
    have "\<forall>es'. instances (fold step es' ?w) k = [c]"
      using singleton_run [OF inv] c by simp
    moreover have "\<forall>view uuid. resolveInitTarget k view uuid ?w = ((c, False), ?w)"
      using resolveInitTarget_sole [OF single c] by simp
    moreover have "\<forall>name view. fst (proxyMethod k name view ?w) = Inr (CalledOn c)"
      using single c by (simp add: proxyMethod_def)
    ultimately show "(\<forall>es'. instances (fold step es' ?w) k = [c]) \<and>
        (\<forall>view uuid. resolveInitTarget k view uuid ?w = ((c, False), ?w)) \<and>
        (\<forall>name view. fst (proxyMethod k name view ?w) = Inr (CalledOn c))"
      by blast
  qed
  have lazy: "instances ?w k = [] \<longrightarrow>
        (\<forall>view uuid.
           fst (resolveInitTarget k view uuid ?w) = (nextComponent ?w, True) \<and>
           instances (snd (resolveInitTarget k view uuid ?w)) k = [nextComponent ?w])"
  proof (intro impI allI)
    fix view uuid
    assume e: "instances ?w k = []"
    with resolveInitTarget_singleton [OF single, of view uuid] single
    show "fst (resolveInitTarget k view uuid ?w) = (nextComponent ?w, True) \<and>
           instances (snd (resolveInitTarget k view uuid ?w)) k = [nextComponent ?w]"
      by (simp add: addNewComponent_def Let_def)
  qed
  from len sole lazy show ?thesis by blast
qed

lemma singletonEvents_run: "instances (fold step singletonEvents singletonScene) 2 = [0]"
  by code_simp

theorem singleton_sole_instance_witness:
  "isSingleton singletonScene 2 \<and> instances singletonScene 2 = [] \<and>
   instances (fold step singletonEvents singletonScene) 2 = [0] \<and>
   instances (fold step [UnloadedEvent 2, UnloadedEvent 1]
                (fold step singletonEvents singletonScene)) 2 = [0] \<and>
   fst (proxyMethod 2 ''save'' 3 (fold step singletonEvents singletonScene)) = Inr (CalledOn 0) \<and>
   fst (resolveInitTarget 2 3 ''c3'' (fold step singletonEvents singletonScene)) = (0, False)"
proof -
  have a: "isSingleton singletonScene 2" "instances singletonScene 2 = []"
    by (simp_all add: singletonScene_def siblingsWorld_def emptyWorld_def)
  have b: "\<forall>v. 2 \<notin> set (v_unloadedListeners (views singletonScene v))"
    by (simp add: singletonScene_def siblingsWorld_def emptyWorld_def blankView_def)
  from singleton_sole_instance [OF a b, of singletonEvents] singletonEvents_run
  have "\<forall>es'. instances (fold step es' (fold step singletonEvents singletonScene)) 2 = [0]"
    and "\<forall>view uuid. resolveInitTarget 2 view uuid (fold step singletonEvents singletonScene)
            = ((0, False), fold step singletonEvents singletonScene)"
    and "\<forall>name view. fst (proxyMethod 2 name view (fold step singletonEvents singletonScene))
            = Inr (CalledOn 0)"
    by blast+
  then have "instances (fold step [UnloadedEvent 2, UnloadedEvent 1]
                (fold step singletonEvents singletonScene)) 2 = [0]"
    and "fst (proxyMethod 2 ''save'' 3 (fold step singletonEvents singletonScene)) = Inr (CalledOn 0)"
    and "fst (resolveInitTarget 2 3 ''c3'' (fold step singletonEvents singletonScene)) = (0, False)"
    by (blast, blast, simp)
  with a singletonEvents_run show ?thesis by blast
qed

subsection \<open>The order of the hooks of nested components\<close>

text \<open>
  Claim C1 fails on the code. \<open>_callPageLoadedHook\<close> sets \<open>_wasCalled\<close> on the
  function object \<open>this.onPageLoaded\<close>, which the instances of a class share
  through the prototype. In the run below the hook of component 1, on view 1,
  marks the function that component 3, on view 2, shares with it; the listener
  of component 2, whose view 3 is nested in view 2, then finds its parent
  marked and runs its own hook at once, before the hook of its parent,
  component 3.
\<close>

theorem onPageLoaded_order_violation:
  "trace (fold step nestedEvents nestedWorld) = [0, 1, 2, 3] \<and>
   c_view (components (fold step nestedEvents nestedWorld) 2) = Some 3 \<and>
   c_view (components (fold step nestedEvents nestedWorld) 3) = Some 2 \<and>
   v_parent (views (fold step nestedEvents nestedWorld) 3) = Some 2"
  by code_simp

lemma not_promise_case:
  "\<forall>q. r \<noteq> Promise q \<Longrightarrow> (case r of Promise p \<Rightarrow> a p | _ \<Rightarrow> b) = b"
  by (cases r) simp_all

text \<open>
  A second defect of the same protocol. The wrapper that a nested component
  installs on its parent ends with \<open>this._callPageLoadedHook()\<close>, and its
  receiver is the parent. Once a parent whose hook returns no promise has been
  patched, its \<open>_callPageLoadedHook\<close> therefore runs the parent's hook again
  and again until the engine throws \<open>RangeError\<close>, whatever the depth it
  allows, and the hook of no other component runs.
\<close>

lemma patched_parent_recursion:
  assumes "c_ownHook (components w p) = Some f"
    and "f_body (hookFns w f) = Wrapper g p"
    and "f_body (hookFns w g) = ProtoHook k"
    and "userHook w k = Returns r" and "\<forall>q. r \<noteq> Promise q"
  shows "fst (callPageLoadedHook n p w) = Inl RangeError \<and>
         set (trace (snd (callPageLoadedHook n p w))) \<subseteq> set (trace w) \<union> {p}"
  using assms
proof (induction n arbitrary: w rule: less_induct)
  case (less n)
  show ?case
  proof (cases n)
    case 0
    then show ?thesis by auto
  next
    case (Suc n1)
    let ?w1 = "markCalled f w"
    have res: "resolveHook w p = f"
      using less.prems(1) by (simp add: resolveHook_def)
    have gf: "g \<noteq> f"
      using less.prems(2,3) by auto
    have w1: "c_ownHook (components ?w1 p) = Some f" "f_body (hookFns ?w1 f) = Wrapper g p"
      "f_body (hookFns ?w1 g) = ProtoHook k" "userHook ?w1 k = Returns r" "trace ?w1 = trace w"
      using less.prems gf by (simp_all add: markCalled_def)
    have inner: "fst (invokeHook n1 f p ?w1) = Inl RangeError \<and>
         set (trace (snd (invokeHook n1 f p ?w1))) \<subseteq> set (trace w) \<union> {p}"
    proof (cases n1)
      case 0
      with w1 show ?thesis by auto
    next
      case n1: (Suc n2)
      show ?thesis
      proof (cases n2)
        case 0
        with n1 w1 show ?thesis by auto
      next
        case n2: (Suc n3)
        let ?w2 = "?w1\<lparr>trace := trace ?w1 @ [p]\<rparr>"
        have user: "invokeHook n2 g p ?w1 = (Inr r, ?w2)"
          using n2 w1 by (simp add: runUserHook_def)
        have w2: "c_ownHook (components ?w2 p) = Some f" "f_body (hookFns ?w2 f) = Wrapper g p"
          "f_body (hookFns ?w2 g) = ProtoHook k" "userHook ?w2 k = Returns r"
          using w1 by simp_all
        have "n2 < n" using Suc n1 by simp
        from less.IH [OF this w2 less.prems(5)]
        have ih: "fst (callPageLoadedHook n2 p ?w2) = Inl RangeError"
          "set (trace (snd (callPageLoadedHook n2 p ?w2))) \<subseteq> set (trace ?w2) \<union> {p}"
          by simp_all
        have "invokeHook n1 f p ?w1 = callPageLoadedHook n2 p ?w2"
          using n1 w1(2) user not_promise_case [OF less.prems(5)] by simp
        with ih w1(5) show ?thesis by auto
      qed
    qed
    obtain e w' where r: "invokeHook n1 f p ?w1 = (e, w')" by (cases "invokeHook n1 f p ?w1")
    with inner have "e = Inl RangeError" "set (trace w') \<subseteq> set (trace w) \<union> {p}" by simp_all
    with Suc res r show ?thesis by (simp add: Let_def)
  qed
qed

end
